theory Spec2Isabelle
  imports Main "HOL-Library.Char_ord" "HOL-Library.List_Lexorder"
begin

section \<open>JavaScript values\<close>

text \<open>
  Optional strings (\<open>string | null | undefined\<close>) are \<open>string option\<close>. A string is
  truthy when it is present and not empty; \<open>a || b\<close> yields \<open>a\<close> when \<open>a\<close> is truthy and
  \<open>b\<close> otherwise. Strings compare as JavaScript compares them, lexicographically by
  character code.
\<close>

definition truthy :: "string option \<Rightarrow> bool" where
  "truthy s = (case s of None \<Rightarrow> False | Some v \<Rightarrow> v \<noteq> [])"

definition orElse :: "string option \<Rightarrow> string option \<Rightarrow> string option" where
  "orElse a b = (if truthy a then a else b)"

section \<open>Data model (types.ts and the repository documents)\<close>

record EventInput =
  accountId :: string
  calendarId :: string
  uid :: string
  title :: string
  description :: "string option"
  location :: "string option"
  startAt :: string
  endAt :: string
  allDay :: bool
  recurrenceRule :: "string option"
  organizer :: "string option"
  attendees :: "string list"
  responseStatus :: "string option"
  remoteUrl :: "string option"
  etag :: "string option"
  rawIcs :: "string option"

record EventDocument = EventInput +
  id' :: string
  createdAt :: string
  updatedAt :: string

type_synonym CalendarEvent = EventDocument

record ListEventsOptions =
  opt_accountId :: "string option"
  opt_from :: "string option"
  opt_to :: "string option"
  opt_limit :: "nat option"
  opt_offset :: "nat option"

datatype CalendarProvider = ical | google | icloud | outlook | caldav

datatype AuthType = auth_none | auth_password | auth_oauth2

datatype CalendarCredentials =
    NoCredentials
  | PasswordCredentials (username: string) (password: string)
  | OAuth2Credentials (accessToken: string) (refreshToken: string) (expiresAt: string)

record AccountCalendar =
  cal_id :: string
  cal_name :: string
  cal_color :: "string option"
  cal_enabled :: bool

record AccountDocument =
  acc_id :: string
  provider :: CalendarProvider
  name :: string
  url :: "string option"
  authType :: AuthType
  enabled :: bool
  syncIntervalMs :: int
  lastSyncAt :: "string option"
  lastError :: "string option"
  acc_createdAt :: string
  acc_updatedAt :: string
  calendars :: "AccountCalendar list"

record CalendarAccount = AccountDocument +
  userId :: string
  credentials :: CalendarCredentials

record SyncState =
  sync_id :: string
  sync_accountId :: string
  syncToken :: "string option"
  deltaLink :: "string option"
  sync_lastSyncAt :: string
  sync_updatedAt :: string

record SettingsDocument =
  set_id :: string
  reminderMinutes :: int
  instruction :: string
  eventInstruction :: string
  set_createdAt :: string
  set_updatedAt :: string

record CalendarSettings = SettingsDocument +
  set_userId :: string

record CredentialRefreshConfig =
  googleClientId :: "string option"
  googleClientSecret :: "string option"
  outlookClientId :: "string option"
  outlookTenantId :: "string option"

record DeviceCodeConfig =
  clientId :: string
  clientSecret :: "string option"
  deviceCodeUrl :: string
  tokenUrl :: string
  scopes :: "string list"

text \<open>The token endpoint's JSON answer, and the \<open>TokenResponse\<close> built from it.\<close>

record TokenData =
  access_token :: string
  refresh_token :: "string option"
  expires_in :: int
  token_type :: string

record TokenResponse =
  tok_accessToken :: string
  tok_refreshToken :: string
  expiresIn :: int
  tokenType :: string

record SyncResult =
  events :: "CalendarEvent list"
  deletedUids :: "string list option"
  res_syncToken :: "string option"
  res_deltaLink :: "string option"
  fullSync :: bool

record RemoteCalendar =
  rc_id :: string
  rc_name :: string
  rc_color :: "string option"
  readOnly :: bool

text \<open>What the Google Calendar API returns, as far as the provider reads it.\<close>

record GoogleCalendarItem =
  gc_id :: string
  gc_summary :: "string option"
  gc_backgroundColor :: "string option"
  gc_accessRole :: "string option"

record GoogleItem =
  g_status :: "string option"
  g_iCalUID :: "string option"
  g_id :: "string option"
  g_start_dateTime :: "string option"
  g_start_date :: "string option"
  g_end_dateTime :: "string option"
  g_end_date :: "string option"
  g_summary :: "string option"
  g_description :: "string option"
  g_location :: "string option"
  g_organizer_email :: "string option"
  g_attendees :: "string list"
  g_htmlLink :: "string option"
  g_etag :: "string option"

record GoogleEventsData =
  nextSyncToken :: "string option"
  g_items :: "GoogleItem list"

text \<open>
  A VEVENT as the iCal codec (ical.js) presents it. The recurrence iterator is the
  sequence of its answers: \<open>v_occurrences k\<close> is the \<open>k\<close>-th occurrence (start and end, in
  milliseconds), \<open>None\<close> once the iterator is exhausted.
\<close>

record VAttendee =
  att_value :: "string option"
  att_partstat :: "string option"

record VEvent =
  v_uid :: string
  v_isRecurring :: bool
  v_occurrences :: "nat \<Rightarrow> (int \<times> int) option"
  v_startDate :: int
  v_endDate :: "int option"
  v_isDate :: bool
  v_summary :: "string option"
  v_description :: "string option"
  v_location :: "string option"
  v_rrule :: "string option"
  v_organizer :: "string option"
  v_attendees :: "VAttendee list"
  v_text :: string

record UserProfile =
  firstName :: "string option"
  nickname :: "string option"
  language :: "string option"
  timezone :: "string option"

record Deps =
  credentialConfig :: CredentialRefreshConfig
  has_chat :: bool
  has_user :: bool
  has_emitEventChanged :: bool

text \<open>The answer of a \<open>fetch\<close>: the call is rejected, or answers with a status that is not ok
  (status, status text, body), or answers with a payload.\<close>

datatype 'a http = Rejected string | NotOk string string string | Ok 'a

text \<open>What the extension sends out, in order.\<close>

datatype effect =
    TokenRequest DeviceCodeConfig string
  | AppendInstruction string string
  | HttpGet string
  | EventChanged

section \<open>The host: storage, clock and faults\<close>

text \<open>
  The extension runs against the host's storage API. A collection is an association list
  from document id to document, in insertion order. Every call to the host can throw; the
  \<open>k\<close>-th call made since the start throws the message \<open>faultAt h k\<close> when there is one,
  and reads the clock as \<open>clockAt h k\<close>. The record \<open>host\<close> holds what the environment
  answers, the record \<open>world\<close> what the extension can change.
\<close>

record host =
  faultAt :: "nat \<Rightarrow> string option"
  clockAt :: "nat \<Rightarrow> int"
  randomAt :: "nat \<Rightarrow> string"
  toISOString :: "int \<Rightarrow> string"
  dateParse :: "string \<Rightarrow> int option"
  toLowerCase :: "string \<Rightarrow> string"
  encodeURIComponent :: "string \<Rightarrow> string"
  tokenAt :: "nat \<Rightarrow> TokenData http"
  feedAt :: "nat \<Rightarrow> string http"
  icalParse :: "string \<Rightarrow> string + VEvent list"
  googleCalendarsAt :: "nat \<Rightarrow> GoogleCalendarItem list http"
  googleEventsAt :: "nat \<Rightarrow> GoogleEventsData http"
  remoteAt :: "nat \<Rightarrow> string + SyncResult"
  profileAt :: "nat \<Rightarrow> string + UserProfile"

record world =
  coll_events :: "(string \<times> EventDocument) list"
  coll_accounts :: "(string \<times> AccountDocument) list"
  coll_syncState :: "(string \<times> SyncState) list"
  coll_settings :: "(string \<times> SettingsDocument) list"
  secrets :: "(string \<times> CalendarCredentials) list"
  effects :: "effect list"
  tick :: nat

type_synonym 'a io = "world \<Rightarrow> (string + 'a) \<times> world"

definition ret :: "'a \<Rightarrow> 'a io" where
  "ret x = (\<lambda>w. (Inr x, w))"

definition throw :: "string \<Rightarrow> 'a io" where
  "throw e = (\<lambda>w. (Inl e, w))"

definition bind :: "'a io \<Rightarrow> ('a \<Rightarrow> 'b io) \<Rightarrow> 'b io" where
  "bind m f = (\<lambda>w. case m w of (Inl e, w') \<Rightarrow> (Inl e, w') | (Inr x, w') \<Rightarrow> f x w')"

definition try_catch :: "'a io \<Rightarrow> (string \<Rightarrow> 'a io) \<Rightarrow> 'a io" where
  "try_catch m handler = (\<lambda>w. case m w of (Inl e, w') \<Rightarrow> handler e w' | (Inr x, w') \<Rightarrow> (Inr x, w'))"

fun for_each :: "('a \<Rightarrow> unit io) \<Rightarrow> 'a list \<Rightarrow> unit io" where
  "for_each f [] = ret ()"
| "for_each f (x # xs) = bind (f x) (\<lambda>_. for_each f xs)"

text \<open>One call to the host: it may throw, otherwise it reads and updates the world.\<close>

definition host_call :: "host \<Rightarrow> (world \<Rightarrow> 'a \<times> world) \<Rightarrow> 'a io" where
  "host_call h f = (\<lambda>w.
     let w1 = w\<lparr>tick := tick w + 1\<rparr> in
     case faultAt h (tick w) of
       Some e \<Rightarrow> (Inl e, w1)
     | None \<Rightarrow> (case f w1 of (x, w2) \<Rightarrow> (Inr x, w2)))"

text \<open>\<open>new Date().toISOString()\<close>: a clock reading, which cannot throw.\<close>

definition now_ms :: "host \<Rightarrow> int io" where
  "now_ms h = (\<lambda>w. (Inr (clockAt h (tick w)), w\<lparr>tick := tick w + 1\<rparr>))"

definition now_iso :: "host \<Rightarrow> string io" where
  "now_iso h = bind (now_ms h) (\<lambda>t. ret (toISOString h t))"

text \<open>
  \<open>generateId(prefix)\<close> concatenates the prefix, an underscore, and a timestamp and a random
  suffix in base 36; the host supplies the last two as one string.
\<close>

definition generateId :: "host \<Rightarrow> string \<Rightarrow> string io" where
  "generateId h prefix = (\<lambda>w. (Inr (prefix @ ''_'' @ randomAt h (tick w)), w\<lparr>tick := tick w + 1\<rparr>))"

subsection \<open>Storage operations on one collection\<close>

fun storage_get :: "string \<Rightarrow> (string \<times> 'd) list \<Rightarrow> 'd option" where
  "storage_get k [] = None"
| "storage_get k ((k', d) # rest) = (if k' = k then Some d else storage_get k rest)"

fun storage_put :: "string \<Rightarrow> 'd \<Rightarrow> (string \<times> 'd) list \<Rightarrow> (string \<times> 'd) list" where
  "storage_put k d [] = [(k, d)]"
| "storage_put k d ((k', d') # rest) =
     (if k' = k then (k, d) # rest else (k', d') # storage_put k d rest)"

definition storage_delete :: "string \<Rightarrow> (string \<times> 'd) list \<Rightarrow> (string \<times> 'd) list" where
  "storage_delete k c = filter (\<lambda>(k', d). k' \<noteq> k) c"

definition storage_findOne :: "('d \<Rightarrow> bool) \<Rightarrow> (string \<times> 'd) list \<Rightarrow> 'd option" where
  "storage_findOne query c = (case filter query (map snd c) of [] \<Rightarrow> None | d # _ \<Rightarrow> Some d)"

text \<open>
  \<open>find(collection, query, {sort: {field: 'asc'}, limit, offset})\<close>: the documents that match,
  sorted by the field (ties in insertion order), then \<open>offset\<close> skipped and \<open>limit\<close> kept.
\<close>

definition storage_find ::
  "('d \<Rightarrow> bool) \<Rightarrow> ('d \<Rightarrow> string) \<Rightarrow> nat \<Rightarrow> nat \<Rightarrow> (string \<times> 'd) list \<Rightarrow> 'd list" where
  "storage_find query field lim off c =
     take lim (drop off (sort_key field (filter query (map snd c))))"

section \<open>EventsRepository (db/eventsRepository.ts)\<close>

definition toCalendarEvent :: "EventDocument \<Rightarrow> CalendarEvent" where
  "toCalendarEvent doc = \<lparr>
     accountId = accountId doc, calendarId = calendarId doc, uid = uid doc,
     title = title doc, description = description doc, location = location doc,
     startAt = startAt doc, endAt = endAt doc, allDay = allDay doc,
     recurrenceRule = recurrenceRule doc, organizer = organizer doc,
     attendees = attendees doc, responseStatus = responseStatus doc,
     remoteUrl = remoteUrl doc, etag = etag doc, rawIcs = rawIcs doc,
     id' = id' doc, createdAt = createdAt doc, updatedAt = updatedAt doc\<rparr>"

definition list_events :: "host \<Rightarrow> ListEventsOptions \<Rightarrow> CalendarEvent list io" where
  "list_events h options =
     (let limit = (case opt_limit options of None \<Rightarrow> 100 | Some l \<Rightarrow> l);
          offset = (case opt_offset options of None \<Rightarrow> 0 | Some off \<Rightarrow> off);
          query = (\<lambda>d. if truthy (opt_accountId options)
                        then Some (accountId d) = opt_accountId options else True)
      in bind (host_call h (\<lambda>w.
                 (storage_find query startAt (limit + offset) 0 (coll_events w), w)))
           (\<lambda>docs.
              let filtered1 = (if truthy (opt_from options)
                               then filter (\<lambda>d. the (opt_from options) \<le> endAt d) docs else docs);
                  filtered2 = (if truthy (opt_to options)
                               then filter (\<lambda>d. startAt d \<le> the (opt_to options)) filtered1
                               else filtered1);
                  filtered3 = filter (\<lambda>d. responseStatus d \<noteq> Some ''declined'') filtered2
              in ret (map toCalendarEvent (take limit (drop offset filtered3)))))"

definition getUpcoming :: "host \<Rightarrow> string \<Rightarrow> string \<Rightarrow> CalendarEvent list io" where
  "getUpcoming h fromDate toDate =
     list_events h \<lparr>opt_accountId = None, opt_from = Some fromDate, opt_to = Some toDate,
                    opt_limit = Some 200, opt_offset = None\<rparr>"

definition getByUid :: "host \<Rightarrow> string \<Rightarrow> string \<Rightarrow> CalendarEvent option io" where
  "getByUid h acc u =
     bind (host_call h (\<lambda>w.
             (storage_findOne (\<lambda>d. accountId d = acc \<and> uid d = u) (coll_events w), w)))
       (\<lambda>doc. ret (case doc of None \<Rightarrow> None | Some d \<Rightarrow> Some (toCalendarEvent d)))"

definition upsertByUid :: "host \<Rightarrow> string \<Rightarrow> EventInput \<Rightarrow> CalendarEvent io" where
  "upsertByUid h acc event =
     bind (now_iso h) (\<lambda>now.
     bind (getByUid h acc (uid event)) (\<lambda>existing.
       case existing of
         Some ex \<Rightarrow>
           (let doc = \<lparr>
              accountId = acc, calendarId = calendarId event, uid = uid event,
              title = title event, description = description event, location = location event,
              startAt = startAt event, endAt = endAt event, allDay = allDay event,
              recurrenceRule = recurrenceRule event, organizer = organizer event,
              attendees = attendees event, responseStatus = responseStatus event,
              remoteUrl = remoteUrl event, etag = etag event, rawIcs = rawIcs event,
              id' = id' ex, createdAt = createdAt ex, updatedAt = now\<rparr>
            in bind (host_call h (\<lambda>w.
                       ((), w\<lparr>coll_events := storage_put (id' ex) doc (coll_events w)\<rparr>)))
                 (\<lambda>_. ret (toCalendarEvent doc)))
       | None \<Rightarrow>
           bind (generateId h ''evt'') (\<lambda>newId.
             let doc = \<lparr>
               accountId = acc, calendarId = calendarId event, uid = uid event,
               title = title event, description = description event, location = location event,
               startAt = startAt event, endAt = endAt event, allDay = allDay event,
               recurrenceRule = recurrenceRule event, organizer = organizer event,
               attendees = attendees event, responseStatus = responseStatus event,
               remoteUrl = remoteUrl event, etag = etag event, rawIcs = rawIcs event,
               id' = newId, createdAt = now, updatedAt = now\<rparr>
             in bind (host_call h (\<lambda>w.
                        ((), w\<lparr>coll_events := storage_put newId doc (coll_events w)\<rparr>)))
                  (\<lambda>_. ret (toCalendarEvent doc)))))"

definition delete_event :: "host \<Rightarrow> string \<Rightarrow> bool io" where
  "delete_event h k =
     bind (host_call h (\<lambda>w. (storage_get k (coll_events w), w))) (\<lambda>doc.
       case doc of
         None \<Rightarrow> ret False
       | Some _ \<Rightarrow>
           bind (host_call h (\<lambda>w. ((), w\<lparr>coll_events := storage_delete k (coll_events w)\<rparr>)))
             (\<lambda>_. ret True))"

section \<open>AccountsRepository (db/accountsRepository.ts)\<close>

text \<open>
  Credentials are kept in the secret store under a key derived from the account id. The
  stored JSON text is represented by the credentials it encodes.
\<close>

definition getCredentialsKey :: "string \<Rightarrow> string" where
  "getCredentialsKey accId = ''account-'' @ accId @ ''-credentials''"

definition toCalendarAccount :: "AccountDocument \<Rightarrow> CalendarCredentials \<Rightarrow> CalendarAccount" where
  "toCalendarAccount doc creds = \<lparr>
     acc_id = acc_id doc, provider = provider doc, name = name doc, url = url doc,
     authType = authType doc, enabled = enabled doc, syncIntervalMs = syncIntervalMs doc,
     lastSyncAt = lastSyncAt doc, lastError = lastError doc,
     acc_createdAt = acc_createdAt doc, acc_updatedAt = acc_updatedAt doc,
     calendars = calendars doc, userId = [], credentials = creds\<rparr>"

definition saveCredentials :: "host \<Rightarrow> string \<Rightarrow> CalendarCredentials \<Rightarrow> unit io" where
  "saveCredentials h accId creds =
     host_call h (\<lambda>w. ((), w\<lparr>secrets := storage_put (getCredentialsKey accId) creds (secrets w)\<rparr>))"

definition loadCredentials :: "host \<Rightarrow> string \<Rightarrow> AuthType \<Rightarrow> CalendarCredentials io" where
  "loadCredentials h accId aType =
     bind (host_call h (\<lambda>w. (storage_get (getCredentialsKey accId) (secrets w), w))) (\<lambda>stored.
       case stored of
         Some c \<Rightarrow> ret c
       | None \<Rightarrow>
           (if aType = auth_oauth2 then ret (OAuth2Credentials [] [] [])
            else if aType = auth_password then ret (PasswordCredentials [] [])
            else ret NoCredentials))"

fun load_accounts :: "host \<Rightarrow> AccountDocument list \<Rightarrow> CalendarAccount list io" where
  "load_accounts h [] = ret []"
| "load_accounts h (doc # docs) =
     bind (loadCredentials h (acc_id doc) (authType doc)) (\<lambda>creds.
     bind (load_accounts h docs) (\<lambda>rest. ret (toCalendarAccount doc creds # rest)))"

text \<open>\<open>list()\<close> with its defaults: the first 50 accounts by name.\<close>

definition accounts_list :: "host \<Rightarrow> CalendarAccount list io" where
  "accounts_list h =
     bind (host_call h (\<lambda>w. (storage_find (\<lambda>_. True) name 50 0 (coll_accounts w), w)))
       (load_accounts h)"

definition updateSyncStatus :: "host \<Rightarrow> string \<Rightarrow> string option \<Rightarrow> unit io" where
  "updateSyncStatus h accId err =
     bind (host_call h (\<lambda>w. (storage_get accId (coll_accounts w), w))) (\<lambda>doc.
       case doc of
         None \<Rightarrow> ret ()
       | Some d \<Rightarrow>
           bind (now_iso h) (\<lambda>now.
             host_call h (\<lambda>w. ((), w\<lparr>coll_accounts :=
               storage_put accId (d\<lparr>lastSyncAt := Some now, lastError := err, acc_updatedAt := now\<rparr>)
                 (coll_accounts w)\<rparr>))))"

definition updateCredentials :: "host \<Rightarrow> string \<Rightarrow> CalendarCredentials \<Rightarrow> unit io" where
  "updateCredentials h accId creds =
     bind (host_call h (\<lambda>w. (storage_get accId (coll_accounts w), w))) (\<lambda>doc.
       case doc of
         None \<Rightarrow> ret ()
       | Some d \<Rightarrow>
           bind (now_iso h) (\<lambda>now.
           bind (host_call h (\<lambda>w. ((), w\<lparr>coll_accounts :=
                   storage_put accId (d\<lparr>acc_updatedAt := now\<rparr>) (coll_accounts w)\<rparr>))) (\<lambda>_.
             saveCredentials h accId creds)))"

section \<open>SyncStateRepository and SettingsRepository\<close>

definition syncState_get :: "host \<Rightarrow> string \<Rightarrow> SyncState option io" where
  "syncState_get h accId =
     host_call h (\<lambda>w. (storage_findOne (\<lambda>d. sync_accountId d = accId) (coll_syncState w), w))"

definition syncState_upsert ::
  "host \<Rightarrow> string \<Rightarrow> string option \<Rightarrow> string option \<Rightarrow> SyncState io" where
  "syncState_upsert h accId tok link =
     bind (now_iso h) (\<lambda>now.
     bind (host_call h (\<lambda>w.
             (storage_findOne (\<lambda>d. sync_accountId d = accId) (coll_syncState w), w))) (\<lambda>existing.
       case existing of
         Some ex \<Rightarrow>
           (let doc = ex\<lparr>syncToken := tok, deltaLink := link,
                         sync_lastSyncAt := now, sync_updatedAt := now\<rparr>
            in bind (host_call h (\<lambda>w.
                       ((), w\<lparr>coll_syncState := storage_put (sync_id ex) doc (coll_syncState w)\<rparr>)))
                 (\<lambda>_. ret doc))
       | None \<Rightarrow>
           (let newId = ''sync_'' @ accId;
                doc = \<lparr>sync_id = newId, sync_accountId = accId, syncToken = tok,
                       deltaLink = link, sync_lastSyncAt = now, sync_updatedAt = now\<rparr>
            in bind (host_call h (\<lambda>w.
                       ((), w\<lparr>coll_syncState := storage_put newId doc (coll_syncState w)\<rparr>)))
                 (\<lambda>_. ret doc))))"

definition settings_get :: "host \<Rightarrow> CalendarSettings io" where
  "settings_get h =
     (let settingsId = ''user-settings'' in
      bind (host_call h (\<lambda>w. (storage_get settingsId (coll_settings w), w))) (\<lambda>doc.
        case doc of
          Some d \<Rightarrow> ret \<lparr>set_id = set_id d, reminderMinutes = reminderMinutes d,
                          instruction = instruction d, eventInstruction = eventInstruction d,
                          set_createdAt = set_createdAt d, set_updatedAt = set_updatedAt d,
                          set_userId = []\<rparr>
        | None \<Rightarrow>
            bind (now_iso h) (\<lambda>now.
              let newDoc = \<lparr>set_id = settingsId, reminderMinutes = 15, instruction = [],
                            eventInstruction = [], set_createdAt = now, set_updatedAt = now\<rparr>
              in bind (host_call h (\<lambda>w.
                         ((), w\<lparr>coll_settings := storage_put settingsId newDoc (coll_settings w)\<rparr>)))
                   (\<lambda>_. ret \<lparr>set_id = settingsId, reminderMinutes = 15, instruction = [],
                               eventInstruction = [], set_createdAt = now, set_updatedAt = now,
                               set_userId = []\<rparr>))))"

section \<open>OAuth2 token refresh (oauth/device-code.ts, oauth/google.ts, oauth/outlook.ts)\<close>

definition refreshAccessToken :: "host \<Rightarrow> DeviceCodeConfig \<Rightarrow> string \<Rightarrow> TokenResponse io" where
  "refreshAccessToken h config refreshTok = (\<lambda>w.
     let w1 = w\<lparr>tick := tick w + 1, effects := effects w @ [TokenRequest config refreshTok]\<rparr> in
     case tokenAt h (tick w) of
       Rejected e \<Rightarrow> (Inl e, w1)
     | NotOk status statusText body \<Rightarrow> (Inl (''Failed to refresh token: '' @ body), w1)
     | Ok data \<Rightarrow>
         (Inr \<lparr>tok_accessToken = access_token data,
               tok_refreshToken = (if truthy (refresh_token data)
                                   then the (refresh_token data) else refreshTok),
               expiresIn = expires_in data, tokenType = token_type data\<rparr>, w1))"

definition createGoogleConfig :: "string \<Rightarrow> string \<Rightarrow> DeviceCodeConfig" where
  "createGoogleConfig cid csecret = \<lparr>
     clientId = cid, clientSecret = Some csecret,
     deviceCodeUrl = ''https://oauth2.googleapis.com/device/code'',
     tokenUrl = ''https://oauth2.googleapis.com/token'',
     scopes = [''https://www.googleapis.com/auth/calendar'']\<rparr>"

definition refreshGoogleCalendarToken ::
  "host \<Rightarrow> string \<Rightarrow> string \<Rightarrow> string \<Rightarrow> TokenResponse io" where
  "refreshGoogleCalendarToken h cid csecret refreshTok =
     refreshAccessToken h (createGoogleConfig cid csecret) refreshTok"

definition isTokenExpired :: "host \<Rightarrow> string \<Rightarrow> int \<Rightarrow> bool io" where
  "isTokenExpired h expAt bufferMinutes =
     bind (now_ms h) (\<lambda>now.
       ret (case dateParse h expAt of
              None \<Rightarrow> False
            | Some expirationTime \<Rightarrow> now \<ge> expirationTime - bufferMinutes * 60 * 1000))"

definition DEFAULT_OUTLOOK_CALENDAR_CLIENT_ID :: string where
  "DEFAULT_OUTLOOK_CALENDAR_CLIENT_ID = ''22f6cd67-c896-49b6-b68e-89d90035e0a7''"

definition createOutlookConfig :: "string \<Rightarrow> string option \<Rightarrow> DeviceCodeConfig" where
  "createOutlookConfig cid tenant =
     (let tenantId = (case tenant of None \<Rightarrow> ''common'' | Some t \<Rightarrow> t);
          base = ''https://login.microsoftonline.com''
      in \<lparr>clientId = cid, clientSecret = None,
           deviceCodeUrl = base @ ''/'' @ tenantId @ ''/oauth2/v2.0/devicecode'',
           tokenUrl = base @ ''/'' @ tenantId @ ''/oauth2/v2.0/token'',
           scopes = [''https://graph.microsoft.com/Calendars.ReadWrite'', ''offline_access'']\<rparr>)"

definition refreshOutlookCalendarToken ::
  "host \<Rightarrow> string \<Rightarrow> string option \<Rightarrow> string \<Rightarrow> TokenResponse io" where
  "refreshOutlookCalendarToken h cid tenant refreshTok =
     refreshAccessToken h (createOutlookConfig cid tenant) refreshTok"

definition isOutlookTokenExpired :: "host \<Rightarrow> string \<Rightarrow> int \<Rightarrow> bool io" where
  "isOutlookTokenExpired h expAt bufferMinutes =
     bind (now_ms h) (\<lambda>now.
       ret (case dateParse h expAt of
              None \<Rightarrow> False
            | Some expirationTime \<Rightarrow> now \<ge> expirationTime - bufferMinutes * 60 * 1000))"

section \<open>Credential refresh (credentials.ts)\<close>

definition ensureFreshCredentials ::
  "host \<Rightarrow> CalendarAccount \<Rightarrow> CredentialRefreshConfig \<Rightarrow> CalendarCredentials io" where
  "ensureFreshCredentials h account config =
     (case credentials account of
        OAuth2Credentials oaAccess oaRefresh oaExpiresAt \<Rightarrow>
          if provider account = google then
            bind (isTokenExpired h oaExpiresAt 5) (\<lambda>expired.
              if \<not> expired then ret (credentials account)
              else if \<not> truthy (googleClientId config) \<or> \<not> truthy (googleClientSecret config)
              then throw ''Google OAuth configuration missing for token refresh''
              else
                bind (refreshGoogleCalendarToken h (the (googleClientId config))
                        (the (googleClientSecret config)) oaRefresh) (\<lambda>token.
                bind (now_ms h) (\<lambda>now.
                  let newCredentials = OAuth2Credentials (tok_accessToken token)
                        (tok_refreshToken token) (toISOString h (now + expiresIn token * 1000))
                  in bind (updateCredentials h (acc_id account) newCredentials)
                       (\<lambda>_. ret newCredentials))))
          else if provider account = outlook then
            bind (isOutlookTokenExpired h oaExpiresAt 5) (\<lambda>expired.
              if \<not> expired then ret (credentials account)
              else
                (let outlookCid = (if truthy (outlookClientId config)
                                   then the (outlookClientId config)
                                   else ''22f6cd67-c896-49b6-b68e-89d90035e0a7'')
                 in bind (refreshOutlookCalendarToken h outlookCid (outlookTenantId config)
                            oaRefresh) (\<lambda>token.
                    bind (now_ms h) (\<lambda>now.
                      let newCredentials = OAuth2Credentials (tok_accessToken token)
                            (tok_refreshToken token) (toISOString h (now + expiresIn token * 1000))
                      in bind (updateCredentials h (acc_id account) newCredentials)
                           (\<lambda>_. ret newCredentials)))))
          else ret (credentials account)
      | _ \<Rightarrow> ret (credentials account))"

section \<open>iCal parsing (ical/parser.ts)\<close>

text \<open>\<open>s.replace(pat, rep)\<close> with a string pattern replaces the first occurrence.\<close>

fun replace_first :: "string \<Rightarrow> string \<Rightarrow> string \<Rightarrow> string" where
  "replace_first pat rep [] = (if pat = [] then rep else [])"
| "replace_first pat rep (c # cs) =
     (if take (length pat) (c # cs) = pat then rep @ drop (length pat) (c # cs)
      else c # replace_first pat rep cs)"

definition orNull :: "string option \<Rightarrow> string option" where
  "orNull s = (if truthy s then s else None)"

definition attendee_email :: "VAttendee \<Rightarrow> string" where
  "attendee_email a =
     (case att_value a of Some v \<Rightarrow> replace_first ''mailto:'' [] v | None \<Rightarrow> [])"

definition partstat_status :: "string option \<Rightarrow> string option" where
  "partstat_status p =
     (if p = Some ''ACCEPTED'' then Some ''accepted''
      else if p = Some ''DECLINED'' then Some ''declined''
      else if p = Some ''TENTATIVE'' then Some ''tentative''
      else if p = Some ''NEEDS-ACTION'' then Some ''needsAction''
      else None)"

definition buildEvent ::
  "host \<Rightarrow> VEvent \<Rightarrow> string \<Rightarrow> string \<Rightarrow> string \<Rightarrow> int \<Rightarrow> int \<Rightarrow> string option \<Rightarrow> EventInput" where
  "buildEvent h vevent u accId calId start end userEmail =
     (let recurrence = v_rrule vevent;
          org = (case v_organizer vevent of
                   Some v \<Rightarrow> Some (replace_first ''mailto:'' [] v) | None \<Rightarrow> None);
          atts = map attendee_email (v_attendees vevent);
          response =
            (if truthy userEmail then
               (case filter (\<lambda>a. toLowerCase h (attendee_email a) = toLowerCase h (the userEmail))
                       (v_attendees vevent) of
                  [] \<Rightarrow> None
                | a # _ \<Rightarrow> partstat_status (att_partstat a))
             else None)
      in \<lparr>accountId = accId, calendarId = calId, uid = u,
           title = (if truthy (v_summary vevent) then the (v_summary vevent) else ''(No title)''),
           description = orNull (v_description vevent),
           location = orNull (v_location vevent),
           startAt = toISOString h start, endAt = toISOString h end,
           allDay = v_isDate vevent, recurrenceRule = recurrence, organizer = org,
           attendees = atts, responseStatus = response,
           remoteUrl = None, etag = None, rawIcs = Some (v_text vevent)\<rparr>)"

text \<open>
  The recurrence loop \<open>while (next && count < 365)\<close>: \<open>count\<close> is the number of occurrences
  taken from the iterator so far.
\<close>

function expand_occurrences ::
  "host \<Rightarrow> VEvent \<Rightarrow> string \<Rightarrow> string \<Rightarrow> int \<Rightarrow> int \<Rightarrow> string option \<Rightarrow> nat \<Rightarrow> EventInput list" where
  "expand_occurrences h vevent accId calId from to userEmail count =
     (if count < 365 then
        (case v_occurrences vevent count of
           None \<Rightarrow> []
         | Some (start, end) \<Rightarrow>
             if start > to then []
             else (if end \<ge> from
                   then [buildEvent h vevent (v_uid vevent @ ''_'' @ toISOString h start)
                           accId calId start end userEmail]
                   else [])
                  @ expand_occurrences h vevent accId calId from to userEmail (count + 1))
      else [])"
  by pat_completeness auto
termination
  by (relation "measure (\<lambda>(h, vevent, accId, calId, from, to, userEmail, count). 365 - count)") auto

declare expand_occurrences.simps [simp del]

definition vevent_events ::
  "host \<Rightarrow> string \<Rightarrow> string \<Rightarrow> int \<Rightarrow> int \<Rightarrow> string option \<Rightarrow> VEvent \<Rightarrow> EventInput list" where
  "vevent_events h accId calId from to userEmail vevent =
     (if v_isRecurring vevent then expand_occurrences h vevent accId calId from to userEmail 0
      else
        (let start = v_startDate vevent;
             end = (case v_endDate vevent of Some e \<Rightarrow> e | None \<Rightarrow> start)
         in if end \<ge> from \<and> start \<le> to
            then [buildEvent h vevent (v_uid vevent) accId calId start end userEmail]
            else []))"

definition parseICalData ::
  "host \<Rightarrow> string \<Rightarrow> string \<Rightarrow> string \<Rightarrow> int \<Rightarrow> int \<Rightarrow> string option \<Rightarrow> EventInput list io" where
  "parseICalData h icalData accId calId from to userEmail =
     (case icalParse h icalData of
        Inl e \<Rightarrow> throw e
      | Inr vevents \<Rightarrow> ret (concat (map (vevent_events h accId calId from to userEmail) vevents)))"

section \<open>Providers (providers/ical.ts, providers/google.ts, providers/index.ts)\<close>

definition http_fetch ::
  "string \<Rightarrow> (nat \<Rightarrow> 'a http) \<Rightarrow> (string \<Rightarrow> string \<Rightarrow> string \<Rightarrow> string) \<Rightarrow> 'a io" where
  "http_fetch address answer message = (\<lambda>w.
     let w1 = w\<lparr>tick := tick w + 1, effects := effects w @ [HttpGet address]\<rparr> in
     case answer (tick w) of
       Rejected e \<Rightarrow> (Inl e, w1)
     | NotOk status statusText body \<Rightarrow> (Inl (message status statusText body), w1)
     | Ok x \<Rightarrow> (Inr x, w1))"

fun stamp_events :: "host \<Rightarrow> EventInput list \<Rightarrow> CalendarEvent list io" where
  "stamp_events h [] = ret []"
| "stamp_events h (e # es) =
     bind (now_iso h) (\<lambda>created.
     bind (now_iso h) (\<lambda>updated.
     bind (stamp_events h es) (\<lambda>rest.
       ret (EventInput.extend e
              (EventDocument.fields [] created updated) # rest))))"

definition ical_syncEvents :: "host \<Rightarrow> CalendarAccount \<Rightarrow> int \<Rightarrow> int \<Rightarrow> SyncResult io" where
  "ical_syncEvents h account from to =
     (if \<not> truthy (url account) then throw ''Calendar URL is required''
      else
        bind (http_fetch (the (url account)) (feedAt h)
                (\<lambda>status statusText body.
                   ''Failed to fetch calendar: '' @ status @ '' '' @ statusText)) (\<lambda>icalData.
        bind (parseICalData h icalData (acc_id account) ''default'' from to None) (\<lambda>parsed.
        bind (stamp_events h parsed) (\<lambda>evs.
          ret \<lparr>events = evs, deletedUids = None, res_syncToken = None,
               res_deltaLink = None, fullSync = True\<rparr>))))"

definition getAccessToken :: "CalendarCredentials \<Rightarrow> string io" where
  "getAccessToken creds =
     (case creds of
        OAuth2Credentials a r e \<Rightarrow> ret a
      | _ \<Rightarrow> throw ''Google Calendar requires OAuth2 credentials'')"

definition GOOGLE_API_BASE :: string where
  "GOOGLE_API_BASE = ''https://www.googleapis.com/calendar/v3''"

definition googleFetch :: "string \<Rightarrow> (nat \<Rightarrow> 'a http) \<Rightarrow> 'a io" where
  "googleFetch path answer =
     http_fetch (GOOGLE_API_BASE @ path) answer (\<lambda>status statusText body.
       ''Google Calendar API error ('' @ status @ ''): '' @ body)"

definition google_listCalendars :: "host \<Rightarrow> CalendarCredentials \<Rightarrow> RemoteCalendar list io" where
  "google_listCalendars h creds =
     bind (getAccessToken creds) (\<lambda>token.
     bind (googleFetch ''/users/me/calendarList'' (googleCalendarsAt h)) (\<lambda>items.
       ret (map (\<lambda>cal. \<lparr>rc_id = gc_id cal,
                         rc_name = (if truthy (gc_summary cal) then the (gc_summary cal)
                                    else ''Calendar''),
                         rc_color = gc_backgroundColor cal,
                         readOnly = (gc_accessRole cal = Some ''reader'' \<or>
                                     gc_accessRole cal = Some ''freeBusyReader'')\<rparr>) items)))"

text \<open>
  The loop over the items of one calendar. It runs inside the \<open>try\<close> of the calendar loop,
  whose \<open>catch\<close> only continues with the next calendar: when \<open>new Date(s).toISOString()\<close>
  throws on a start or end that is not a date, the events and tombstones pushed so far
  stay and the rest of the items are skipped. An item without \<open>iCalUID\<close> and \<open>id\<close> has the
  empty string as uid.
\<close>

fun google_items ::
  "host \<Rightarrow> string \<Rightarrow> string \<Rightarrow> GoogleItem list \<Rightarrow> CalendarEvent list \<times> string list \<Rightarrow>
   (CalendarEvent list \<times> string list) io" where
  "google_items h accId calId [] acc = ret acc"
| "google_items h accId calId (item # items) (allEvents, deleted) =
     (if g_status item = Some ''cancelled'' then
        (let u = orElse (g_iCalUID item) (g_id item)
         in google_items h accId calId items
              (allEvents, if truthy u then deleted @ [the u] else deleted))
      else
        (let startS = orElse (g_start_dateTime item) (g_start_date item);
             endS = orElse (g_end_dateTime item) (g_end_date item)
         in if \<not> truthy startS then google_items h accId calId items (allEvents, deleted)
            else
              bind (now_iso h) (\<lambda>now.
                case dateParse h (the startS) of
                  None \<Rightarrow> ret (allEvents, deleted)
                | Some startMs \<Rightarrow>
                    (case (if truthy endS then dateParse h (the endS) else Some startMs) of
                       None \<Rightarrow> ret (allEvents, deleted)
                     | Some endMs \<Rightarrow>
                         google_items h accId calId items
                           (allEvents @ [\<lparr>
                              accountId = accId, calendarId = calId,
                              uid = (case orElse (g_iCalUID item) (g_id item) of
                                       Some u \<Rightarrow> u | None \<Rightarrow> []),
                              title = (if truthy (g_summary item) then the (g_summary item)
                                       else ''(No title)''),
                              description = orNull (g_description item),
                              location = orNull (g_location item),
                              startAt = toISOString h startMs, endAt = toISOString h endMs,
                              allDay = (\<not> truthy (g_start_dateTime item)),
                              recurrenceRule = None,
                              organizer = orNull (g_organizer_email item),
                              attendees = g_attendees item, responseStatus = None,
                              remoteUrl = orNull (g_htmlLink item), etag = orNull (g_etag item),
                              rawIcs = None, id' = [], createdAt = now, updatedAt = now\<rparr>],
                            deleted)))))"

text \<open>
  The loop over the calendars: a calendar whose request fails is skipped. The state of the
  loop is the events, the tombstones and the newest sync token seen.
\<close>

fun google_calendars ::
  "host \<Rightarrow> string \<Rightarrow> int \<Rightarrow> int \<Rightarrow> string option \<Rightarrow> RemoteCalendar list \<Rightarrow>
   CalendarEvent list \<times> string list \<times> string option \<Rightarrow>
   (CalendarEvent list \<times> string list \<times> string option) io" where
  "google_calendars h accId from to syncTok [] acc = ret acc"
| "google_calendars h accId from to syncTok (cal # cals) (allEvents, deleted, newSyncToken) =
     (let path =
        (if truthy syncTok
         then ''/calendars/'' @ encodeURIComponent h (rc_id cal) @ ''/events?syncToken=''
              @ encodeURIComponent h (the syncTok) @ ''&singleEvents=true''
         else ''/calendars/'' @ encodeURIComponent h (rc_id cal) @ ''/events?timeMin=''
              @ toISOString h from @ ''&timeMax='' @ toISOString h to
              @ ''&singleEvents=true&maxResults=2500'')
      in bind (try_catch (bind (googleFetch path (googleEventsAt h)) (\<lambda>d. ret (Some d)))
                 (\<lambda>e. ret None)) (\<lambda>fetched.
           case fetched of
             None \<Rightarrow> google_calendars h accId from to syncTok cals (allEvents, deleted, newSyncToken)
           | Some d \<Rightarrow>
               bind (google_items h accId (rc_id cal) (g_items d) (allEvents, deleted))
                 (\<lambda>(allEvents', deleted').
                    google_calendars h accId from to syncTok cals
                      (allEvents', deleted',
                       if truthy (nextSyncToken d) then nextSyncToken d else newSyncToken))))"

definition google_syncEvents ::
  "host \<Rightarrow> CalendarAccount \<Rightarrow> CalendarCredentials \<Rightarrow> int \<Rightarrow> int \<Rightarrow> string option \<Rightarrow>
   SyncResult io" where
  "google_syncEvents h account creds from to syncTok =
     bind (getAccessToken creds) (\<lambda>token.
     bind (google_listCalendars h creds) (\<lambda>cals.
     bind (google_calendars h (acc_id account) from to syncTok cals ([], [], None))
       (\<lambda>(allEvents, deleted, newSyncToken).
          ret \<lparr>events = allEvents,
               deletedUids = (if deleted \<noteq> [] then Some deleted else None),
               res_syncToken = newSyncToken, res_deltaLink = None,
               fullSync = (\<not> truthy syncTok)\<rparr>)))"

text \<open>
  The registry holds a provider for each of the five kinds, so \<open>getRequired\<close> always finds
  one. The CalDAV, iCloud and Outlook providers talk to their servers through client
  libraries; their \<open>syncEvents\<close> is represented by its outcome, an error or a result.
\<close>

definition remote_syncEvents :: "host \<Rightarrow> SyncResult io" where
  "remote_syncEvents h = (\<lambda>w. (remoteAt h (tick w), w\<lparr>tick := tick w + 1\<rparr>))"

definition provider_syncEvents ::
  "host \<Rightarrow> CalendarAccount \<Rightarrow> CalendarCredentials \<Rightarrow> int \<Rightarrow> int \<Rightarrow> string option \<Rightarrow>
   SyncResult io" where
  "provider_syncEvents h account creds from to syncTok =
     (case provider account of
        ical \<Rightarrow> ical_syncEvents h account from to
      | google \<Rightarrow> google_syncEvents h account creds from to syncTok
      | _ \<Rightarrow> remote_syncEvents h)"

section \<open>Sync orchestration (sync.ts)\<close>

definition emitEventChanged :: "host \<Rightarrow> Deps \<Rightarrow> unit io" where
  "emitEventChanged h deps =
     (if has_emitEventChanged deps
      then host_call h (\<lambda>w. ((), w\<lparr>effects := effects w @ [EventChanged]\<rparr>))
      else ret ())"

text \<open>
  \<open>syncAccountEvents\<close> is one \<open>try\<close> block and its \<open>catch\<close>. The block is \<open>sync_pass\<close>; what it
  does with the provider's result (the two loops, the cursor and the status) is
  \<open>reconcile\<close>.
\<close>

definition upsert_events :: "host \<Rightarrow> string \<Rightarrow> CalendarEvent list \<Rightarrow> unit io" where
  "upsert_events h accId evs =
     for_each (\<lambda>event.
       bind (upsertByUid h accId \<lparr>
               accountId = accId, calendarId = calendarId event,
               uid = uid event, title = title event,
               description = description event, location = location event,
               startAt = startAt event, endAt = endAt event, allDay = allDay event,
               recurrenceRule = recurrenceRule event, organizer = organizer event,
               attendees = attendees event, responseStatus = None,
               remoteUrl = remoteUrl event, etag = etag event,
               rawIcs = rawIcs event\<rparr>) (\<lambda>_. ret ())) evs"

definition delete_tombstone :: "host \<Rightarrow> string \<Rightarrow> string \<Rightarrow> unit io" where
  "delete_tombstone h accId u =
     bind (getByUid h accId u) (\<lambda>existingEvent.
       case existingEvent of
         None \<Rightarrow> ret ()
       | Some ex \<Rightarrow> bind (delete_event h (id' ex)) (\<lambda>_. ret ()))"

definition delete_tombstones :: "host \<Rightarrow> string \<Rightarrow> string list option \<Rightarrow> unit io" where
  "delete_tombstones h accId deleted =
     (case deleted of
        None \<Rightarrow> ret ()
      | Some uids \<Rightarrow> if uids = [] then ret () else for_each (delete_tombstone h accId) uids)"

definition reconcile :: "host \<Rightarrow> CalendarAccount \<Rightarrow> SyncResult \<Rightarrow> unit io" where
  "reconcile h account syncResult =
     bind (upsert_events h (acc_id account) (events syncResult)) (\<lambda>_.
     bind (delete_tombstones h (acc_id account) (deletedUids syncResult)) (\<lambda>_.
     bind (syncState_upsert h (acc_id account) (res_syncToken syncResult)
             (res_deltaLink syncResult)) (\<lambda>_.
       updateSyncStatus h (acc_id account) None)))"

definition sync_pass :: "host \<Rightarrow> Deps \<Rightarrow> CalendarAccount \<Rightarrow> unit io" where
  "sync_pass h deps account =
     bind (ensureFreshCredentials h account (credentialConfig deps)) (\<lambda>creds.
     bind (now_ms h) (\<lambda>now.
       let from = now - 7 * 24 * 60 * 60 * 1000;
           to = now + 90 * 24 * 60 * 60 * 1000
       in
     bind (syncState_get h (acc_id account)) (\<lambda>syncSt.
     bind (provider_syncEvents h account creds from to
             (case syncSt of None \<Rightarrow> None | Some st \<Rightarrow> syncToken st)) (\<lambda>syncResult.
       reconcile h account syncResult))))"

definition syncAccountEvents :: "host \<Rightarrow> Deps \<Rightarrow> CalendarAccount \<Rightarrow> unit io" where
  "syncAccountEvents h deps account =
     try_catch (sync_pass h deps account)
       (\<lambda>error.
          try_catch (updateSyncStatus h (acc_id account) (Some error)) (\<lambda>_. ret ()))"

definition syncAllAccountsWithContext :: "host \<Rightarrow> Deps \<Rightarrow> string option \<Rightarrow> unit io" where
  "syncAllAccountsWithContext h deps execUserId =
     (if \<not> truthy execUserId then ret ()
      else
        try_catch
          (bind (accounts_list h) (\<lambda>accounts.
           bind (for_each (\<lambda>account.
                   if \<not> enabled account then ret ()
                   else syncAccountEvents h deps account) accounts) (\<lambda>_.
             emitEventChanged h deps)))
          (\<lambda>error. ret ()))"

section \<open>Reminders (reminders.ts)\<close>

fun join :: "string \<Rightarrow> string list \<Rightarrow> string" where
  "join sep [] = []"
| "join sep [x] = x"
| "join sep (x # y # ys) = x @ sep @ join sep (y # ys)"

definition buildReminderInstruction ::
  "CalendarEvent \<Rightarrow> CalendarSettings \<Rightarrow> string option \<Rightarrow> string option \<Rightarrow> string" where
  "buildReminderInstruction event settings userName lang =
     join [CHR 0x0A]
       ([''[Calendar Reminder]'', []]
        @ (if truthy userName then [''User: '' @ the userName] else [])
        @ [''Event: '' @ title event, ''Start: '' @ startAt event, ''End: '' @ endAt event]
        @ (if allDay event then [''All day event''] else [])
        @ (if truthy (location event) then [''Location: '' @ the (location event)] else [])
        @ (if truthy (description event)
           then [''Description: '' @ the (description event)] else [])
        @ (if attendees event \<noteq> []
           then [''Attendees: '' @ join '', '' (attendees event)] else [])
        @ (if truthy lang then [''Language: '' @ the lang] else [])
        @ (if instruction settings \<noteq> []
           then [[], ''Instruction: '' @ instruction settings] else []))"

definition getProfile :: "host \<Rightarrow> string \<Rightarrow> UserProfile io" where
  "getProfile h uId = (\<lambda>w. (profileAt h (tick w), w\<lparr>tick := tick w + 1\<rparr>))"

text \<open>\<open>chat.appendInstruction\<close>: the instruction goes out, and the call may still throw.\<close>

definition appendInstruction :: "host \<Rightarrow> string \<Rightarrow> string \<Rightarrow> unit io" where
  "appendInstruction h txt uId = (\<lambda>w.
     let w1 = w\<lparr>tick := tick w + 1, effects := effects w @ [AppendInstruction txt uId]\<rparr> in
     case faultAt h (tick w) of Some e \<Rightarrow> (Inl e, w1) | None \<Rightarrow> (Inr (), w1))"

definition fireReminder :: "host \<Rightarrow> Deps \<Rightarrow> CalendarEvent \<Rightarrow> CalendarSettings \<Rightarrow> string \<Rightarrow> unit io" where
  "fireReminder h deps event settings uId =
     (if \<not> has_chat deps then ret ()
      else
        bind (if has_user deps
              then try_catch (bind (getProfile h uId) (\<lambda>p. ret (Some p))) (\<lambda>e. ret None)
              else ret None) (\<lambda>userProfile.
          let userName = (case userProfile of
                            None \<Rightarrow> None | Some p \<Rightarrow> orElse (nickname p) (firstName p));
              lang = (case userProfile of None \<Rightarrow> None | Some p \<Rightarrow> language p)
          in appendInstruction h (buildReminderInstruction event settings userName lang) uId))"

section \<open>The reminder phase of the background worker (worker.ts)\<close>

definition POLL_INTERVAL_MS :: int where
  "POLL_INTERVAL_MS = 10 * 60 * 1000"

definition REMINDER_GRACE_MS :: int where
  "REMINDER_GRACE_MS = 5 * 60 * 1000"

text \<open>
  The body of the loop over the upcoming events. The state is the set \<open>firedReminders\<close> and
  \<open>earliestFuture\<close>, with \<open>None\<close> for \<open>Infinity\<close>. A start that is not a date gives the
  reminder time \<open>NaN\<close>, here \<open>None\<close>, for which both comparisons are false.
\<close>

definition reminder_step ::
  "host \<Rightarrow> Deps \<Rightarrow> string \<Rightarrow> CalendarSettings \<Rightarrow> int \<Rightarrow> CalendarEvent \<Rightarrow>
   string set \<times> int option \<Rightarrow> (string set \<times> int option) io" where
  "reminder_step h deps uId settings nowMs event st =
     (case st of (firedReminders, earliestFuture) \<Rightarrow>
        let reminderTime = (case dateParse h (startAt event) of
                              None \<Rightarrow> None
                            | Some eventStart \<Rightarrow>
                                Some (eventStart - reminderMinutes settings * 60 * 1000));
            key = uid event @ ''-'' @ startAt event
        in if key \<in> firedReminders then ret st
           else
             (case reminderTime of
                None \<Rightarrow> ret st
              | Some reminderMs \<Rightarrow>
                  if reminderMs \<le> nowMs \<and> reminderMs > nowMs - REMINDER_GRACE_MS then
                    try_catch
                      (bind (fireReminder h deps event settings uId)
                         (\<lambda>_. ret (insert key firedReminders, earliestFuture)))
                      (\<lambda>err. ret st)
                  else if reminderMs > nowMs then
                    ret (firedReminders,
                         Some (case earliestFuture of
                                 None \<Rightarrow> reminderMs - nowMs
                               | Some m \<Rightarrow> min m (reminderMs - nowMs)))
                  else ret st))"

fun reminder_loop ::
  "host \<Rightarrow> Deps \<Rightarrow> string \<Rightarrow> CalendarSettings \<Rightarrow> int \<Rightarrow> CalendarEvent list \<Rightarrow>
   string set \<times> int option \<Rightarrow> (string set \<times> int option) io" where
  "reminder_loop h deps uId settings nowMs [] st = ret st"
| "reminder_loop h deps uId settings nowMs (event # rest) st =
     bind (reminder_step h deps uId settings nowMs event st)
       (\<lambda>st'. reminder_loop h deps uId settings nowMs rest st')"

text \<open>
  One reminder phase: it returns the set of fired reminders and the time to sleep before
  the next pass. When reading the settings or the events throws, the set is as before.
\<close>

definition reminders_phase ::
  "host \<Rightarrow> Deps \<Rightarrow> string \<Rightarrow> string set \<Rightarrow> (string set \<times> int) io" where
  "reminders_phase h deps uId firedReminders =
     try_catch
       (bind (settings_get h) (\<lambda>settings.
        bind (now_ms h) (\<lambda>now.
          let in24h = now + 24 * 60 * 60 * 1000 in
        bind (getUpcoming h (toISOString h now) (toISOString h in24h)) (\<lambda>evs.
        bind (reminder_loop h deps uId settings now evs (firedReminders, None))
          (\<lambda>(fired', earliestFuture).
             ret (fired', case earliestFuture of
                            None \<Rightarrow> POLL_INTERVAL_MS
                          | Some e \<Rightarrow> min e POLL_INTERVAL_MS))))))
       (\<lambda>err. ret (firedReminders, POLL_INTERVAL_MS))"

section \<open>Vocabulary for the properties\<close>

text \<open>The arguments of \<open>list\<close> after its defaults, and its three filters taken together.\<close>

definition listLimit :: "ListEventsOptions \<Rightarrow> nat" where
  "listLimit options = (case opt_limit options of None \<Rightarrow> 100 | Some l \<Rightarrow> l)"

definition listOffset :: "ListEventsOptions \<Rightarrow> nat" where
  "listOffset options = (case opt_offset options of None \<Rightarrow> 0 | Some off \<Rightarrow> off)"

definition listQuery :: "ListEventsOptions \<Rightarrow> EventDocument \<Rightarrow> bool" where
  "listQuery options d =
     (truthy (opt_accountId options) \<longrightarrow> Some (accountId d) = opt_accountId options)"

definition listFilter :: "ListEventsOptions \<Rightarrow> EventDocument \<Rightarrow> bool" where
  "listFilter options d =
     ((truthy (opt_from options) \<longrightarrow> the (opt_from options) \<le> endAt d) \<and>
      (truthy (opt_to options) \<longrightarrow> startAt d \<le> the (opt_to options)) \<and>
      responseStatus d \<noteq> Some ''declined'')"

text \<open>
  The events cache is well formed when it is a map (no key twice), every document is stored
  under its own id, and no two documents share account and uid.
\<close>

definition same_key :: "string \<Rightarrow> string \<Rightarrow> EventDocument \<Rightarrow> bool" where
  "same_key acc u d = (accountId d = acc \<and> uid d = u)"

definition rows_for :: "string \<Rightarrow> string \<Rightarrow> (string \<times> EventDocument) list \<Rightarrow> EventDocument list" where
  "rows_for acc u c = filter (same_key acc u) (map snd c)"

definition wf_events :: "(string \<times> EventDocument) list \<Rightarrow> bool" where
  "wf_events c = (distinct (map fst c) \<and> (\<forall>(k, d) \<in> set c. id' d = k) \<and>
     (\<forall>(k1, d1) \<in> set c. \<forall>(k2, d2) \<in> set c.
        accountId d1 = accountId d2 \<and> uid d1 = uid d2 \<longrightarrow> k1 = k2))"

definition preserves :: "(world \<Rightarrow> 'b) \<Rightarrow> 'a io \<Rightarrow> bool" where
  "preserves f m = (\<forall>w. f (snd (m w)) = f w)"

definition token_expired :: "host \<Rightarrow> string \<Rightarrow> world \<Rightarrow> bool" where
  "token_expired h expAt w =
     (case dateParse h expAt of None \<Rightarrow> False
      | Some expirationTime \<Rightarrow> clockAt h (tick w) \<ge> expirationTime - 5 * 60 * 1000)"

definition refresh_and_store ::
  "host \<Rightarrow> string \<Rightarrow> DeviceCodeConfig \<Rightarrow> string \<Rightarrow> CalendarCredentials io" where
  "refresh_and_store h accId cfg refreshTok =
     bind (refreshAccessToken h cfg refreshTok) (\<lambda>token.
     bind (now_ms h) (\<lambda>now.
       let newCredentials = OAuth2Credentials (tok_accessToken token)
             (tok_refreshToken token) (toISOString h (now + expiresIn token * 1000))
       in bind (updateCredentials h accId newCredentials) (\<lambda>_. ret newCredentials)))"

definition no_faults :: "host \<Rightarrow> bool" where
  "no_faults h = (\<forall>k. faultAt h k = None)"

definition reminder_key :: "CalendarEvent \<Rightarrow> string" where
  "reminder_key e = uid e @ ''-'' @ startAt e"

definition is_reminder_for :: "CalendarSettings \<Rightarrow> string \<Rightarrow> CalendarEvent \<Rightarrow> effect \<Rightarrow> bool" where
  "is_reminder_for settings uId e eff =
     (\<exists>userName lang. eff = AppendInstruction (buildReminderInstruction e settings userName lang) uId)"

definition due :: "host \<Rightarrow> CalendarSettings \<Rightarrow> int \<Rightarrow> CalendarEvent \<Rightarrow> bool" where
  "due h settings nowMs e =
     (case dateParse h (startAt e) of
        None \<Rightarrow> False
      | Some T \<Rightarrow> T - reminderMinutes settings * 60 * 1000 \<le> nowMs \<and>
                  nowMs < T - reminderMinutes settings * 60 * 1000 + 5 * 60 * 1000)"

definition delivery_tick :: "Deps \<Rightarrow> world \<Rightarrow> nat" where
  "delivery_tick deps w = tick w + (if has_user deps then 1 else 0)"

definition window_events :: "string \<Rightarrow> string \<Rightarrow> (string \<times> EventDocument) list \<Rightarrow> EventDocument list" where
  "window_events fromDate toDate c =
     filter (\<lambda>d. (fromDate \<noteq> [] \<longrightarrow> fromDate \<le> endAt d) \<and> (toDate \<noteq> [] \<longrightarrow> startAt d \<le> toDate) \<and>
                 responseStatus d \<noteq> Some ''declined'')
       (sort_key startAt (map snd c))"

definition item_key :: "GoogleItem \<Rightarrow> string option" where
  "item_key i = orElse (g_iCalUID i) (g_id i)"

definition item_cancelled :: "GoogleItem \<Rightarrow> bool" where
  "item_cancelled i = (g_status i = Some ''cancelled'')"

definition item_start :: "GoogleItem \<Rightarrow> string option" where
  "item_start i = orElse (g_start_dateTime i) (g_start_date i)"

definition item_end :: "GoogleItem \<Rightarrow> string option" where
  "item_end i = orElse (g_end_dateTime i) (g_end_date i)"

definition well_dated :: "host \<Rightarrow> GoogleItem \<Rightarrow> bool" where
  "well_dated h i =
     (\<not> item_cancelled i \<and> truthy (item_start i) \<longrightarrow>
        dateParse h (the (item_start i)) \<noteq> None \<and>
        (truthy (item_end i) \<longrightarrow> dateParse h (the (item_end i)) \<noteq> None))"

definition tombstones :: "GoogleItem list \<Rightarrow> string list" where
  "tombstones items =
     map (\<lambda>i. the (item_key i)) (filter (\<lambda>i. item_cancelled i \<and> truthy (item_key i)) items)"

definition live_uids :: "GoogleItem list \<Rightarrow> string list" where
  "live_uids items =
     map (\<lambda>i. case item_key i of Some u \<Rightarrow> u | None \<Rightarrow> [])
       (filter (\<lambda>i. \<not> item_cancelled i \<and> truthy (item_start i)) items)"

definition succeeds :: "'a io \<Rightarrow> bool" where
  "succeeds m = (\<forall>w. \<exists>x w'. m w = (Inr x, w'))"

section \<open>Sample data\<close>

definition sample_host :: host where
  "sample_host = \<lparr>faultAt = (\<lambda>_. None), clockAt = (\<lambda>k. 1000 * int k),
     randomAt = (\<lambda>k. ''r''), toISOString = (\<lambda>_. []), dateParse = (\<lambda>_. None),
     toLowerCase = (\<lambda>s. s), encodeURIComponent = (\<lambda>s. s), tokenAt = (\<lambda>_. Rejected ''offline''),
     feedAt = (\<lambda>_. Rejected ''offline''), icalParse = (\<lambda>_. Inr []),
     googleCalendarsAt = (\<lambda>_. Rejected ''offline''),
     googleEventsAt = (\<lambda>_. Rejected ''offline''),
     remoteAt = (\<lambda>_. Inl ''offline''), profileAt = (\<lambda>_. Inl ''offline'')\<rparr>"

definition sample_event :: "string \<Rightarrow> string \<Rightarrow> string \<Rightarrow> string option \<Rightarrow> EventDocument" where
  "sample_event u s e r = \<lparr>
     accountId = ''acc1'', calendarId = ''cal'', uid = u, title = ''Standup'',
     description = None, location = None, startAt = s, endAt = e, allDay = False,
     recurrenceRule = None, organizer = None, attendees = [], responseStatus = r,
     remoteUrl = None, etag = None, rawIcs = None,
     id' = ''evt_'' @ u, createdAt = ''2026-01-01T00:00:00.000Z'',
     updatedAt = ''2026-01-01T00:00:00.000Z''\<rparr>"

definition sample_declined :: EventDocument where
  "sample_declined =
     sample_event ''u1'' ''2026-03-01T09:00:00.000Z'' ''2026-03-01T10:00:00.000Z'' (Some ''declined'')"

definition sample_accepted :: EventDocument where
  "sample_accepted =
     sample_event ''u2'' ''2026-03-01T11:00:00.000Z'' ''2026-03-01T12:00:00.000Z'' (Some ''accepted'')"

definition sample_world :: world where
  "sample_world = \<lparr>coll_events = [(''evt_u2'', sample_accepted), (''evt_u1'', sample_declined)],
     coll_accounts = [], coll_syncState = [], coll_settings = [], secrets = [], effects = [],
     tick = 0\<rparr>"

definition sample_options :: ListEventsOptions where
  "sample_options = \<lparr>opt_accountId = Some ''acc1'', opt_from = Some ''2026-03-01T00:00:00.000Z'',
     opt_to = Some ''2026-03-02T00:00:00.000Z'', opt_limit = None, opt_offset = None\<rparr>"

text \<open>
  A date codec for the samples: ISO strings of instants in March 2026, and their parse.
\<close>

definition two_digits :: "int \<Rightarrow> string" where
  "two_digits n = [char_of (48 + n div 10), char_of (48 + n mod 10)]"

definition three_digits :: "int \<Rightarrow> string" where
  "three_digits n = char_of (48 + n div 100) # two_digits (n mod 100)"

definition march_iso :: "int \<Rightarrow> string" where
  "march_iso t =
     (let ms = t - 1772323200000
      in ''2026-03-'' @ two_digits (ms div 86400000 + 1) @ ''T''
         @ two_digits (ms div 3600000 mod 24) @ '':'' @ two_digits (ms div 60000 mod 60)
         @ '':'' @ two_digits (ms div 1000 mod 60) @ ''.'' @ three_digits (ms mod 1000) @ ''Z'')"

definition digits_value :: "string \<Rightarrow> int" where
  "digits_value s = foldl (\<lambda>n c. 10 * n + (of_char c - 48)) 0 s"

definition march_parse :: "string \<Rightarrow> int option" where
  "march_parse s =
     (if length s = 24 \<and> take 8 s = ''2026-03-''
      then Some (1772323200000
             + (digits_value (take 2 (drop 8 s)) - 1) * 86400000
             + digits_value (take 2 (drop 11 s)) * 3600000
             + digits_value (take 2 (drop 14 s)) * 60000
             + digits_value (take 2 (drop 17 s)) * 1000
             + digits_value (take 3 (drop 20 s)))
      else None)"

text \<open>A host that is offline and raises nothing, whose clock starts at \<open>start\<close> and
  advances by \<open>pace\<close> milliseconds with every call.\<close>

definition march_host :: "int \<Rightarrow> int \<Rightarrow> host" where
  "march_host start pace = \<lparr>faultAt = (\<lambda>_. None), clockAt = (\<lambda>k. start + pace * int k),
     randomAt = (\<lambda>k. ''m7x2k9qp''), toISOString = march_iso, dateParse = march_parse,
     toLowerCase = (\<lambda>s. s), encodeURIComponent = (\<lambda>s. s), tokenAt = (\<lambda>_. Rejected ''offline''),
     feedAt = (\<lambda>_. Rejected ''offline''), icalParse = (\<lambda>_. Inr []),
     googleCalendarsAt = (\<lambda>_. Rejected ''offline''),
     googleEventsAt = (\<lambda>_. Rejected ''offline''),
     remoteAt = (\<lambda>_. Inl ''offline''), profileAt = (\<lambda>_. Inl ''offline'')\<rparr>"

definition empty_world :: world where
  "empty_world = \<lparr>coll_events = [], coll_accounts = [], coll_syncState = [],
     coll_settings = [], secrets = [], effects = [], tick = 0\<rparr>"

definition sample_input :: "string \<Rightarrow> string \<Rightarrow> EventInput" where
  "sample_input u t = \<lparr>
     accountId = ''acc1'', calendarId = ''cal'', uid = u, title = t,
     description = None, location = None, startAt = ''2026-03-01T09:00:00.000Z'',
     endAt = ''2026-03-01T10:00:00.000Z'', allDay = False,
     recurrenceRule = None, organizer = None, attendees = [], responseStatus = None,
     remoteUrl = None, etag = None, rawIcs = None\<rparr>"

definition first_upsert :: "(string + CalendarEvent) \<times> world" where
  "first_upsert = upsertByUid (march_host 1772354580000 1000) ''acc1''
                    (sample_input ''u1'' ''Standup'') empty_world"

definition second_upsert :: "(string + CalendarEvent) \<times> world" where
  "second_upsert = upsertByUid (march_host 1772354580000 1000) ''acc1''
                     (sample_input ''u1'' ''Standup (moved)'') (snd first_upsert)"

definition weekly_standup :: VEvent where
  "weekly_standup = \<lparr>v_uid = ''standup@example.com'', v_isRecurring = True,
     v_occurrences = (\<lambda>k. if k < 3
        then Some (1772355600000 + int k * 604800000, 1772359200000 + int k * 604800000)
        else None),
     v_startDate = 1772355600000, v_endDate = Some 1772359200000, v_isDate = False,
     v_summary = Some ''Standup'', v_description = None, v_location = None,
     v_rrule = Some ''FREQ=WEEKLY;COUNT=3'', v_organizer = None, v_attendees = [],
     v_text = ''BEGIN:VEVENT''\<rparr>"

definition standup_events :: "EventInput list" where
  "standup_events = vevent_events (march_host 1772354580000 0) ''acc1'' ''default''
                      1772323200000 1773100800000 None weekly_standup"

definition sample_account :: "string \<Rightarrow> CalendarProvider \<Rightarrow> string option \<Rightarrow> CalendarCredentials \<Rightarrow> CalendarAccount" where
  "sample_account i p u c = \<lparr>acc_id = i, provider = p, name = ''Calendar '' @ i, url = u,
     authType = (case c of NoCredentials \<Rightarrow> auth_none
                 | PasswordCredentials _ _ \<Rightarrow> auth_password
                 | OAuth2Credentials _ _ _ \<Rightarrow> auth_oauth2),
     enabled = True, syncIntervalMs = 600000, lastSyncAt = None, lastError = None,
     acc_createdAt = ''2026-02-01T00:00:00.000Z'', acc_updatedAt = ''2026-02-01T00:00:00.000Z'',
     calendars = [], userId = [], credentials = c\<rparr>"

definition no_config :: CredentialRefreshConfig where
  "no_config = \<lparr>googleClientId = None, googleClientSecret = None,
     outlookClientId = None, outlookTenantId = None\<rparr>"

definition google_config :: CredentialRefreshConfig where
  "google_config = \<lparr>googleClientId = Some ''client-1'', googleClientSecret = Some ''secret-1'',
     outlookClientId = None, outlookTenantId = None\<rparr>"

definition expiring_soon :: CalendarCredentials where
  "expiring_soon = OAuth2Credentials ''access-1'' ''refresh-1'' ''2026-03-01T08:45:00.000Z''"

definition expiring_later :: CalendarCredentials where
  "expiring_later = OAuth2Credentials ''access-1'' ''refresh-1'' ''2026-03-01T08:53:00.000Z''"

definition token_host :: host where
  "token_host = (march_host 1772354580000 0)\<lparr>tokenAt :=
     (\<lambda>_. Ok \<lparr>access_token = ''access-2'', refresh_token = None, expires_in = 3600,
               token_type = ''Bearer''\<rparr>)\<rparr>"

definition account_world :: "CalendarAccount list \<Rightarrow> world" where
  "account_world accs = empty_world\<lparr>
     coll_accounts := map (\<lambda>a. (acc_id a, AccountDocument.truncate a)) accs,
     secrets := map (\<lambda>a. (getCredentialsKey (acc_id a), credentials a)) accs\<rparr>"

definition stored_google :: "CalendarCredentials \<Rightarrow> CalendarAccount" where
  "stored_google c = sample_account ''acc1'' google None c"

definition refresh_soon :: "(string + CalendarCredentials) \<times> world" where
  "refresh_soon = ensureFreshCredentials token_host (stored_google expiring_soon) google_config
                    (account_world [stored_google expiring_soon])"

definition refresh_later :: "(string + CalendarCredentials) \<times> world" where
  "refresh_later = ensureFreshCredentials token_host (stored_google expiring_later) google_config
                     (account_world [stored_google expiring_later])"

definition refresh_unconfigured :: "(string + CalendarCredentials) \<times> world" where
  "refresh_unconfigured = ensureFreshCredentials token_host (stored_google expiring_soon)
                            no_config (account_world [stored_google expiring_soon])"

definition chat_deps :: Deps where
  "chat_deps = \<lparr>credentialConfig = no_config, has_chat = True, has_user = False,
     has_emitEventChanged = True\<rparr>"

definition nine_oclock :: EventDocument where
  "nine_oclock = sample_event ''u2'' ''2026-03-01T09:00:00.000Z'' ''2026-03-01T10:00:00.000Z'' None"

definition nine_world :: world where
  "nine_world = empty_world\<lparr>coll_events := [(''evt_u2'', nine_oclock)]\<rparr>"

definition default_settings :: CalendarSettings where
  "default_settings = \<lparr>set_id = ''user-settings'', reminderMinutes = 15, instruction = [],
     eventInstruction = [], set_createdAt = ''2026-03-01T00:00:00.000Z'',
     set_updatedAt = ''2026-03-01T00:00:00.000Z'', set_userId = []\<rparr>"

definition past_event :: EventDocument where
  "past_event = sample_event ''u3'' ''2026-01-10T09:00:00.000Z'' ''2026-01-10T10:00:00.000Z'' None"

definition two_event_world :: world where
  "two_event_world = empty_world\<lparr>coll_events :=
     [(''evt_u2'', nine_oclock), (''evt_u3'', past_event)]\<rparr>"

definition first_page_from_march :: ListEventsOptions where
  "first_page_from_march = \<lparr>opt_accountId = None, opt_from = Some ''2026-03-01T00:00:00.000Z'',
     opt_to = None, opt_limit = Some 1, opt_offset = None\<rparr>"

section \<open>Properties of the event cache\<close>

lemma toCalendarEvent_id [simp]: "toCalendarEvent d = d"
  by (simp add: toCalendarEvent_def)

lemma map_toCalendarEvent [simp]: "map toCalendarEvent xs = xs"
  by (induction xs) simp_all

lemma host_call_Inr:
  "host_call h f w = (Inr x, w') \<longleftrightarrow>
     faultAt h (tick w) = None \<and> (x, w') = f (w\<lparr>tick := tick w + 1\<rparr>)"
  by (cases "faultAt h (tick w)"; cases "f (w\<lparr>tick := tick w + 1\<rparr>)")
     (auto simp: host_call_def Let_def)

lemma bind_Inr:
  "bind m f w = (Inr y, w') \<longleftrightarrow> (\<exists>x w1. m w = (Inr x, w1) \<and> f x w1 = (Inr y, w'))"
  by (cases "m w") (auto simp: bind_def split: sum.splits)

lemma ret_Inr: "ret x w = (Inr y, w') \<longleftrightarrow> y = x \<and> w' = w"
  by (auto simp: ret_def)

lemma filter_chain:
  "filter P3 (if b then filter P2 (if a then filter P1 xs else xs)
              else (if a then filter P1 xs else xs))
   = filter (\<lambda>d. (a \<longrightarrow> P1 d) \<and> (b \<longrightarrow> P2 d) \<and> P3 d) xs"
  by (cases a; cases b; simp)

text \<open>
  What \<open>list\<close> returns: the storage query keeps the first \<open>limit + offset\<close> documents by
  start, and the range and declined filters run on those.
\<close>

lemma list_events_result:
  assumes "list_events h options w = (Inr rs, w')"
  shows "rs = take (listLimit options) (drop (listOffset options) (filter (listFilter options)
         (take (listLimit options + listOffset options) (sort_key startAt
            (filter (listQuery options) (map snd (coll_events w)))))))"
proof -
  have q: "(\<lambda>d. if truthy (opt_accountId options)
                then Some (accountId d) = opt_accountId options else True) = listQuery options"
    by (auto simp: listQuery_def fun_eq_iff)
  from assms show ?thesis
    unfolding list_events_def Let_def bind_Inr host_call_Inr ret_Inr filter_chain q
    by (auto simp: storage_find_def listFilter_def[abs_def] listLimit_def listOffset_def)
qed

lemma list_events_not_declined:
  assumes "list_events h options w = (Inr rs, w')" and "e \<in> set rs"
  shows "responseStatus e \<noteq> Some ''declined''"
proof -
  from assms have "e \<in> set (filter (listFilter options)
         (take (listLimit options + listOffset options) (sort_key startAt
            (filter (listQuery options) (map snd (coll_events w))))))"
    by (auto simp: list_events_result[OF assms(1)] dest!: in_set_takeD in_set_dropD)
  then show ?thesis by (simp add: listFilter_def)
qed

text \<open>
  C7. A cached event whose response status is \<open>declined\<close> is in no result of \<open>list\<close> and
  in no result of \<open>getUpcoming\<close>, whatever the account, range, limit and offset of the query.
\<close>

theorem declined_never_listed:
  assumes "(k, d) \<in> set (coll_events w)" and "responseStatus d = Some ''declined''"
  shows "(list_events h options w = (Inr rs, w') \<longrightarrow> d \<notin> set rs) \<and>
         (getUpcoming h fromDate toDate w = (Inr rs, w') \<longrightarrow> d \<notin> set rs)"
  using assms(2) list_events_not_declined unfolding getUpcoming_def by blast

theorem declined_never_listed_witness:
  "(''evt_u1'', sample_declined) \<in> set (coll_events sample_world) \<and>
   responseStatus sample_declined = Some ''declined'' \<and>
   list_events sample_host sample_options sample_world
     = (Inr [sample_accepted], sample_world\<lparr>tick := 1\<rparr>) \<and>
   sample_declined \<notin> set [sample_accepted]"
proof -
  have h1: "(''evt_u1'', sample_declined) \<in> set (coll_events sample_world)"
    by (simp add: sample_world_def)
  have h2: "responseStatus sample_declined = Some ''declined''"
    by (simp add: sample_declined_def sample_event_def)
  have h3: "list_events sample_host sample_options sample_world
     = (Inr [sample_accepted], sample_world\<lparr>tick := 1\<rparr>)"
    by code_simp
  from declined_never_listed[OF h1 h2, of sample_host sample_options "[sample_accepted]"
      "sample_world\<lparr>tick := 1\<rparr>"] h3
  have "sample_declined \<notin> set [sample_accepted]" by blast
  with h1 h2 h3 show ?thesis by blast
qed

lemma now_iso_Inr: "now_iso h w = (Inr s, w') \<longleftrightarrow> s = toISOString h (clockAt h (tick w)) \<and> w' = w\<lparr>tick := tick w + 1\<rparr>"
  by (auto simp: now_iso_def now_ms_def bind_def ret_def)

lemma generateId_Inr: "generateId h p w = (Inr s, w') \<longleftrightarrow> s = p @ ''_'' @ randomAt h (tick w) \<and> w' = w\<lparr>tick := tick w + 1\<rparr>"
  by (auto simp: generateId_def)

lemma getByUid_Inr:
  "getByUid h acc u w = (Inr r, w') \<longleftrightarrow>
     faultAt h (tick w) = None \<and> r = storage_findOne (\<lambda>d. accountId d = acc \<and> uid d = u) (coll_events w) \<and> w' = w\<lparr>tick := tick w + 1\<rparr>"
  unfolding getByUid_def bind_Inr host_call_Inr ret_Inr
  by (auto split: option.splits)

lemma upsertByUid_Inr:
  assumes "upsertByUid h acc e w = (Inr r, w')"
  shows "coll_events w' = storage_put (id' r) r (coll_events w) \<and>
         EventInput.truncate r = e\<lparr>accountId := acc\<rparr> \<and>
         accountId r = acc \<and> uid r = uid e \<and>
         updatedAt r = toISOString h (clockAt h (tick w)) \<and>
         (case storage_findOne (\<lambda>d. accountId d = acc \<and> uid d = uid e) (coll_events w) of
            Some ex \<Rightarrow> id' r = id' ex \<and> createdAt r = createdAt ex
          | None \<Rightarrow> createdAt r = updatedAt r)"
  using assms
  unfolding upsertByUid_def bind_Inr now_iso_Inr getByUid_Inr
  apply (clarsimp split: option.splits simp: Let_def bind_Inr host_call_Inr ret_Inr generateId_Inr)
  apply (auto simp: EventInput.truncate_def EventDocument.defs EventInput.defs)
  done


lemma findOne_Some: "storage_findOne P c = Some d \<Longrightarrow> d \<in> snd ` set c \<and> P d"
proof -
  assume a: "storage_findOne P c = Some d"
  then obtain rest where "filter P (map snd c) = d # rest"
    by (auto simp: storage_findOne_def split: list.splits)
  then have "d \<in> set (filter P (map snd c))" by simp
  then show ?thesis by auto
qed

lemma findOne_None: "storage_findOne P c = None \<longleftrightarrow> (\<forall>d \<in> snd ` set c. \<not> P d)"
proof (cases "filter P (map snd c)")
  case Nil
  then show ?thesis by (auto simp: storage_findOne_def filter_empty_conv)
next
  case (Cons d ds)
  then have "d \<in> set (filter P (map snd c))" by simp
  then have "\<exists>p \<in> set c. P (snd p)" by auto
  with Cons show ?thesis by (auto simp: storage_findOne_def)
qed

lemma map_fst_storage_put:
  "map fst (storage_put k r c) = (if k \<in> fst ` set c then map fst c else map fst c @ [k])"
  by (induction k r c rule: storage_put.induct) auto

lemma set_storage_put:
  "distinct (map fst c) \<Longrightarrow> set (storage_put k r c) = insert (k, r) {p \<in> set c. fst p \<noteq> k}"
  by (induction k r c rule: storage_put.induct) (auto simp: rev_image_eqI)

lemma put_rows:
  "distinct (map fst c) \<Longrightarrow> (\<forall>(k, d) \<in> set c. P d \<longrightarrow> k = k0) \<Longrightarrow> P r \<Longrightarrow>
   filter P (map snd (storage_put k0 r c)) = [r]"
proof (induction c)
  case Nil
  then show ?case by simp
next
  case (Cons p c)
  obtain k d where p: "p = (k, d)" by (cases p)
  show ?case
  proof (cases "k = k0")
    case True
    with Cons.prems p have "\<forall>(k', d') \<in> set c. \<not> P d'"
      by (auto simp: rev_image_eqI)
    then have "filter P (map snd c) = []" by (auto simp: filter_empty_conv)
    with True p Cons.prems(3) show ?thesis by simp
  next
    case False
    with Cons.prems p have "\<not> P d" by auto
    with False p Cons show ?thesis by simp
  qed
qed

lemma wf_put:
  assumes "wf_events c" and "id' r = k0"
    and "\<forall>(k, d) \<in> set c. same_key (accountId r) (uid r) d \<longrightarrow> k = k0"
  shows "wf_events (storage_put k0 r c)"
proof -
  from assms(1) have d: "distinct (map fst c)" by (simp add: wf_events_def)
  have s: "set (storage_put k0 r c) = insert (k0, r) {p \<in> set c. fst p \<noteq> k0}"
    using d by (rule set_storage_put)
  have "distinct (map fst (storage_put k0 r c))"
    using d by (auto simp: map_fst_storage_put)
  moreover have "\<forall>(k, d) \<in> set (storage_put k0 r c). id' d = k"
    using assms(1,2) unfolding s wf_events_def by auto
  moreover have "\<forall>(k1, d1) \<in> set (storage_put k0 r c). \<forall>(k2, d2) \<in> set (storage_put k0 r c).
        accountId d1 = accountId d2 \<and> uid d1 = uid d2 \<longrightarrow> k1 = k2"
    using assms(1,3) unfolding s wf_events_def same_key_def by fastforce
  ultimately show ?thesis unfolding wf_events_def by blast
qed


lemma findOne_rows: "storage_findOne (same_key acc u) c = (case rows_for acc u c of [] \<Rightarrow> None | d # _ \<Rightarrow> Some d)"
  by (simp add: storage_findOne_def rows_for_def)

lemma same_key_abs: "(\<lambda>d. accountId d = acc \<and> uid d = u) = same_key acc u"
  by (simp add: same_key_def fun_eq_iff)

lemma upsert_key_rows:
  assumes wf: "wf_events c"
    and f: "case storage_findOne (same_key acc u) c of
              Some ex \<Rightarrow> id' r = id' ex | None \<Rightarrow> True"
  shows "\<forall>(k, d) \<in> set c. same_key acc u d \<longrightarrow> k = id' r"
proof (cases "storage_findOne (same_key acc u) c")
  case None
  then show ?thesis by (auto simp: findOne_None)
next
  case (Some ex)
  with f have i: "id' r = id' ex" by simp
  from findOne_Some[OF Some] obtain k0 where k0: "(k0, ex) \<in> set c" and m: "same_key acc u ex"
    by auto
  from wf k0 have "id' ex = k0" by (auto simp: wf_events_def)
  with wf k0 m i show ?thesis
    unfolding wf_events_def same_key_def by fastforce
qed

text \<open>
  C2. Two upserts of the same account and uid into a well-formed cache, both returning,
  leave exactly one row for that account and uid. Its id and creation time are those the
  first call returned, its payload is that of the second call, and its update time is the
  clock reading of the second call.
\<close>

theorem upsert_twice_converges:
  assumes wf: "wf_events (coll_events w0)"
    and u1: "upsertByUid h acc e1 w0 = (Inr r1, w1)"
    and u2: "upsertByUid h acc e2 w1 = (Inr r2, w2)"
    and same: "uid e2 = uid e1"
  shows "rows_for acc (uid e1) (coll_events w2) = [r2] \<and>
         id' r2 = id' r1 \<and> createdAt r2 = createdAt r1 \<and>
         EventInput.truncate r2 = e2\<lparr>accountId := acc\<rparr> \<and>
         updatedAt r2 = toISOString h (clockAt h (tick w1))"
proof -
  let ?u = "uid e1"
  note a1 = upsertByUid_Inr[OF u1, unfolded same_key_abs]
  note a2 = upsertByUid_Inr[OF u2, unfolded same_key_abs same]
  from wf have d0: "distinct (map fst (coll_events w0))" by (simp add: wf_events_def)
  have k1: "\<forall>(k, d) \<in> set (coll_events w0). same_key acc ?u d \<longrightarrow> k = id' r1"
    using a1 by (intro upsert_key_rows[OF wf]) (auto split: option.splits)
  have m1: "same_key acc ?u r1" using a1 by (simp add: same_key_def)
  have c1: "coll_events w1 = storage_put (id' r1) r1 (coll_events w0)" using a1 by simp
  have rows1: "rows_for acc ?u (coll_events w1) = [r1]"
    unfolding rows_for_def c1 by (rule put_rows[OF d0 k1 m1])
  have wf1: "wf_events (coll_events w1)"
    unfolding c1 using k1 m1 by (intro wf_put[OF wf]) (auto simp: same_key_def)
  have f1: "storage_findOne (same_key acc ?u) (coll_events w1) = Some r1"
    by (simp add: findOne_rows rows1)
  with a2 have i: "id' r2 = id' r1" and cr: "createdAt r2 = createdAt r1" by simp_all
  from wf1 have d1: "distinct (map fst (coll_events w1))" by (simp add: wf_events_def)
  have k2: "\<forall>(k, d) \<in> set (coll_events w1). same_key acc ?u d \<longrightarrow> k = id' r2"
    using f1 i by (intro upsert_key_rows[OF wf1]) simp
  have m2: "same_key acc ?u r2" using a2 by (simp add: same_key_def)
  have c2: "coll_events w2 = storage_put (id' r2) r2 (coll_events w1)" using a2 by simp
  have rows2: "rows_for acc ?u (coll_events w2) = [r2]"
    unfolding rows_for_def c2 by (rule put_rows[OF d1 k2 m2])
  from rows2 i cr a2 show ?thesis by simp
qed

section \<open>Recurrence expansion\<close>

lemma expand_length:
  "length (expand_occurrences h v acc cal lo hi ue count) \<le> 365 - count"
proof (induction h v acc cal lo hi ue count rule: expand_occurrences.induct)
  case (1 h v acc cal lo hi ue count)
  show ?case
  proof (cases "count < 365")
    case False
    then show ?thesis by (simp add: expand_occurrences.simps[of h v acc cal lo hi ue count])
  next
    case True
    show ?thesis
    proof (cases "v_occurrences v count")
      case None
      with True show ?thesis by (simp add: expand_occurrences.simps[of h v acc cal lo hi ue count])
    next
      case (Some p)
      obtain s en where p: "p = (s, en)" by (cases p)
      show ?thesis
      proof (cases "s > hi")
        case True
        with \<open>count < 365\<close> Some p show ?thesis
          by (simp add: expand_occurrences.simps[of h v acc cal lo hi ue count])
      next
        case False
        with "1.IH"[OF \<open>count < 365\<close> Some p[symmetric]] \<open>count < 365\<close> Some p
        show ?thesis by (auto simp: expand_occurrences.simps[of h v acc cal lo hi ue count])
      qed
    qed
  qed
qed

lemma expand_member:
  "e \<in> set (expand_occurrences h v acc cal lo hi ue count) \<Longrightarrow>
   \<exists>k s en. count \<le> k \<and> k < 365 \<and> v_occurrences v k = Some (s, en) \<and> lo \<le> en \<and> s \<le> hi \<and>
     e = buildEvent h v (v_uid v @ ''_'' @ toISOString h s) acc cal s en ue"
proof (induction h v acc cal lo hi ue count rule: expand_occurrences.induct)
  case (1 h v acc cal lo hi ue count)
  note eq = expand_occurrences.simps[of h v acc cal lo hi ue count]
  have c: "count < 365"
  proof (rule ccontr)
    assume "\<not> count < 365"
    with "1.prems" show False by (simp add: eq)
  qed
  obtain s en where occ: "v_occurrences v count = Some (s, en)"
  proof (cases "v_occurrences v count")
    case None
    with "1.prems" c have False by (simp add: eq)
    then show ?thesis ..
  next
    case (Some p)
    then show ?thesis using that by (cases p) simp
  qed
  have st: "\<not> s > hi"
  proof
    assume "s > hi"
    with "1.prems" c occ show False by (simp add: eq)
  qed
  from "1.prems" c occ st
  have "e \<in> set ((if lo \<le> en
                   then [buildEvent h v (v_uid v @ ''_'' @ toISOString h s) acc cal s en ue]
                   else []) @ expand_occurrences h v acc cal lo hi ue (count + 1))"
    by (simp add: eq)
  then consider (here) "lo \<le> en" "e = buildEvent h v (v_uid v @ ''_'' @ toISOString h s) acc cal s en ue"
    | (later) "e \<in> set (expand_occurrences h v acc cal lo hi ue (count + 1))"
    by (cases "lo \<le> en") auto
  then show ?case
  proof cases
    case here
    with c occ st show ?thesis by (intro exI[of _ count] exI[of _ s] exI[of _ en]) auto
  next
    case later
    from "1.IH"[OF c occ refl st later] obtain k s' en' where
      "count + 1 \<le> k" "k < 365" "v_occurrences v k = Some (s', en')" "lo \<le> en'" "s' \<le> hi"
      "e = buildEvent h v (v_uid v @ ''_'' @ toISOString h s') acc cal s' en' ue"
      by blast
    then show ?thesis by (intro exI[of _ k] exI[of _ s'] exI[of _ en']) auto
  qed
qed

lemma buildEvent_fields:
  "uid (buildEvent h v u acc cal s en ue) = u \<and>
   accountId (buildEvent h v u acc cal s en ue) = acc \<and>
   startAt (buildEvent h v u acc cal s en ue) = toISOString h s \<and>
   endAt (buildEvent h v u acc cal s en ue) = toISOString h en"
  by (simp add: buildEvent_def Let_def)

text \<open>
  C8. For a recurring VEVENT the expansion emits at most 365 events, and every event it
  emits comes from one of the first 365 occurrences, overlaps the requested range, and has
  as uid the base uid, an underscore and the ISO form of the occurrence's start, which is
  also its \<open>startAt\<close>.
\<close>

theorem recurrence_expansion_capped_and_keyed:
  assumes "v_isRecurring v"
  shows "length (vevent_events h acc cal lo hi ue v) \<le> 365 \<and>
         (\<forall>e \<in> set (vevent_events h acc cal lo hi ue v).
            \<exists>k s en. k < 365 \<and> v_occurrences v k = Some (s, en) \<and> lo \<le> en \<and> s \<le> hi \<and>
              startAt e = toISOString h s \<and> accountId e = acc \<and>
              uid e = v_uid v @ ''_'' @ toISOString h s)"
proof -
  have ev: "vevent_events h acc cal lo hi ue v = expand_occurrences h v acc cal lo hi ue 0"
    using assms by (simp add: vevent_events_def)
  have "length (expand_occurrences h v acc cal lo hi ue 0) \<le> 365"
    using expand_length[of h v acc cal lo hi ue 0] by simp
  moreover have "\<exists>k s en. k < 365 \<and> v_occurrences v k = Some (s, en) \<and> lo \<le> en \<and> s \<le> hi \<and>
              startAt e = toISOString h s \<and> accountId e = acc \<and>
              uid e = v_uid v @ ''_'' @ toISOString h s"
    if "e \<in> set (expand_occurrences h v acc cal lo hi ue 0)" for e
  proof -
    from expand_member[OF that] obtain k s en where
      "k < 365" "v_occurrences v k = Some (s, en)" "lo \<le> en" "s \<le> hi"
      "e = buildEvent h v (v_uid v @ ''_'' @ toISOString h s) acc cal s en ue"
      by blast
    then show ?thesis
      by (intro exI[of _ k] exI[of _ s] exI[of _ en]) (simp add: buildEvent_fields)
  qed
  ultimately show ?thesis unfolding ev by blast
qed

section \<open>Credential refresh\<close>

lemma preserves_ret [simp]: "preserves f (ret x)"
  by (simp add: preserves_def ret_def)

lemma preserves_throw [simp]: "preserves f (throw e)"
  by (simp add: preserves_def throw_def)

lemma preserves_bind:
  "preserves f m \<Longrightarrow> (\<And>x. preserves f (g x)) \<Longrightarrow> preserves f (bind m g)"
  unfolding preserves_def bind_def
  by (auto split: prod.splits sum.splits) (metis snd_conv)+

lemma preserves_try_catch:
  "preserves f m \<Longrightarrow> (\<And>e. preserves f (g e)) \<Longrightarrow> preserves f (try_catch m g)"
  unfolding preserves_def try_catch_def
  by (auto split: prod.splits sum.splits) (metis snd_conv)+

lemma preserves_host_call:
  "(\<And>w. f (w\<lparr>tick := tick w + 1\<rparr>) = f w) \<Longrightarrow> (\<And>w. f (snd (g w)) = f w) \<Longrightarrow>
   preserves f (host_call h g)"
  unfolding preserves_def host_call_def Let_def
  by (auto split: option.splits prod.splits) (metis snd_conv)

lemma preserves_now_ms: "(\<And>w. f (w\<lparr>tick := tick w + 1\<rparr>) = f w) \<Longrightarrow> preserves f (now_ms h)"
  by (simp add: preserves_def now_ms_def)

lemma preserves_now_iso: "(\<And>w. f (w\<lparr>tick := tick w + 1\<rparr>) = f w) \<Longrightarrow> preserves f (now_iso h)"
  unfolding now_iso_def by (intro preserves_bind preserves_now_ms) simp_all

lemma preservesD: "preserves f m \<Longrightarrow> m w = (r, w') \<Longrightarrow> f w' = f w"
  by (auto simp: preserves_def dest: spec[of _ w])

lemma saveCredentials_effects: "preserves effects (saveCredentials h a c)"
  unfolding saveCredentials_def by (intro preserves_host_call) simp_all

lemma updateCredentials_effects: "preserves effects (updateCredentials h a c)"
  unfolding updateCredentials_def
  by (intro preserves_bind preserves_host_call preserves_now_iso saveCredentials_effects)
     (simp_all split: option.splits add: preserves_bind preserves_host_call preserves_now_iso saveCredentials_effects)

lemma isTokenExpired_run:
  "isTokenExpired h e 5 w = (Inr (token_expired h e w), w\<lparr>tick := tick w + 1\<rparr>)"
  by (simp add: isTokenExpired_def token_expired_def bind_def now_ms_def ret_def)

lemma isOutlookTokenExpired_run:
  "isOutlookTokenExpired h e 5 w = (Inr (token_expired h e w), w\<lparr>tick := tick w + 1\<rparr>)"
  by (simp add: isOutlookTokenExpired_def token_expired_def bind_def now_ms_def ret_def)

lemma ensure_not_oauth2:
  assumes "\<And>a r e. credentials account \<noteq> OAuth2Credentials a r e"
  shows "ensureFreshCredentials h account config w = (Inr (credentials account), w)"
proof (cases "credentials account")
  case NoCredentials
  then show ?thesis by (simp add: ensureFreshCredentials_def ret_def)
next
  case (PasswordCredentials u p)
  then show ?thesis by (simp add: ensureFreshCredentials_def ret_def)
next
  case (OAuth2Credentials a r e)
  with assms show ?thesis by blast
qed

lemma ensure_google:
  assumes "credentials account = OAuth2Credentials a r e" and "provider account = google"
  shows "ensureFreshCredentials h account config w =
     (if \<not> token_expired h e w then (Inr (credentials account), w\<lparr>tick := tick w + 1\<rparr>)
      else if \<not> truthy (googleClientId config) \<or> \<not> truthy (googleClientSecret config)
      then (Inl ''Google OAuth configuration missing for token refresh'', w\<lparr>tick := tick w + 1\<rparr>)
      else refresh_and_store h (acc_id account)
             (createGoogleConfig (the (googleClientId config)) (the (googleClientSecret config))) r
             (w\<lparr>tick := tick w + 1\<rparr>))"
  using assms
  by (simp add: ensureFreshCredentials_def bind_def isTokenExpired_run ret_def throw_def
      refresh_and_store_def refreshGoogleCalendarToken_def)

lemma ensure_outlook:
  assumes "credentials account = OAuth2Credentials a r e" and "provider account = outlook"
  shows "ensureFreshCredentials h account config w =
     (if \<not> token_expired h e w then (Inr (credentials account), w\<lparr>tick := tick w + 1\<rparr>)
      else refresh_and_store h (acc_id account)
             (createOutlookConfig
                (if truthy (outlookClientId config) then the (outlookClientId config)
                 else DEFAULT_OUTLOOK_CALENDAR_CLIENT_ID) (outlookTenantId config)) r
             (w\<lparr>tick := tick w + 1\<rparr>))"
  using assms
  by (simp add: ensureFreshCredentials_def bind_def isOutlookTokenExpired_run ret_def
      refresh_and_store_def refreshOutlookCalendarToken_def Let_def
      DEFAULT_OUTLOOK_CALENDAR_CLIENT_ID_def)

lemma refreshAccessToken_world:
  "snd (refreshAccessToken h cfg r w)
     = w\<lparr>tick := tick w + 1, effects := effects w @ [TokenRequest cfg r]\<rparr>"
  by (simp add: refreshAccessToken_def Let_def split: http.splits)

lemma bind_preserved: "(\<And>x. preserves g (f x)) \<Longrightarrow> g (snd (bind m f w)) = g (snd (m w))"
  by (cases "m w") (auto simp: bind_def preserves_def split: sum.splits)

lemma refresh_and_store_effects:
  "effects (snd (refresh_and_store h accId cfg r w)) = effects w @ [TokenRequest cfg r]"
proof -
  have "preserves effects (bind (now_ms h) (\<lambda>now.
       let newCredentials = OAuth2Credentials (tok_accessToken token)
             (tok_refreshToken token) (toISOString h (now + expiresIn token * 1000))
       in bind (updateCredentials h accId newCredentials) (\<lambda>_. ret newCredentials)))" for token
    unfolding Let_def
    by (intro preserves_bind preserves_now_ms updateCredentials_effects) simp_all
  then show ?thesis
    unfolding refresh_and_store_def
    by (subst bind_preserved) (simp_all add: refreshAccessToken_world)
qed

lemma storage_get_put [simp]: "storage_get k (storage_put k v c) = Some v"
  by (induction k v c rule: storage_put.induct) auto

lemma now_ms_Inr: "now_ms h w = (Inr t, w') \<longleftrightarrow> t = clockAt h (tick w) \<and> w' = w\<lparr>tick := tick w + 1\<rparr>"
  by (auto simp: now_ms_def)

lemma refreshAccessToken_Inr:
  "refreshAccessToken h cfg r w = (Inr tok, w') \<longleftrightarrow>
     (\<exists>data. tokenAt h (tick w) = Ok data \<and>
        tok = \<lparr>tok_accessToken = access_token data,
               tok_refreshToken = (if truthy (refresh_token data) then the (refresh_token data) else r),
               expiresIn = expires_in data, tokenType = token_type data\<rparr>) \<and>
     w' = w\<lparr>tick := tick w + 1, effects := effects w @ [TokenRequest cfg r]\<rparr>"
  by (cases "tokenAt h (tick w)") (auto simp: refreshAccessToken_def Let_def)

lemma saveCredentials_Inr:
  "saveCredentials h a c w = (Inr u, w') \<Longrightarrow>
     secrets w' = storage_put (getCredentialsKey a) c (secrets w)"
  by (auto simp: saveCredentials_def host_call_Inr)

lemma updateCredentials_Inr:
  assumes "updateCredentials h a c w = (Inr u, w')" and "storage_get a (coll_accounts w) = Some d"
  shows "storage_get (getCredentialsKey a) (secrets w') = Some c"
  using assms
  by (auto simp: updateCredentials_def bind_Inr host_call_Inr now_iso_Inr
      dest!: saveCredentials_Inr)

lemma refresh_and_store_Inr:
  assumes "refresh_and_store h accId cfg r w = (Inr c', w')"
    and "storage_get accId (coll_accounts w) = Some d"
  shows "storage_get (getCredentialsKey accId) (secrets w') = Some c' \<and>
         (\<exists>data. tokenAt h (tick w) = Ok data \<and>
            c' = OAuth2Credentials (access_token data)
                   (if truthy (refresh_token data) then the (refresh_token data) else r)
                   (toISOString h (clockAt h (tick w + 1) + expires_in data * 1000)))"
  using assms
  by (auto simp: refresh_and_store_def bind_Inr refreshAccessToken_Inr now_ms_Inr Let_def ret_Inr
      dest!: updateCredentials_Inr)

lemma host_call_ok:
  "no_faults h \<Longrightarrow> host_call h f w = (Inr (fst (f (w\<lparr>tick := tick w + 1\<rparr>))), snd (f (w\<lparr>tick := tick w + 1\<rparr>)))"
  by (simp add: no_faults_def host_call_def Let_def split: prod.splits)

lemma updateCredentials_ok:
  "no_faults h \<Longrightarrow> \<exists>w'. updateCredentials h a c w = (Inr (), w')"
  by (cases "storage_get a (coll_accounts (w\<lparr>tick := tick w + 1\<rparr>))")
     (simp_all add: updateCredentials_def saveCredentials_def bind_def host_call_ok ret_def
        now_iso_def now_ms_def)

lemma refresh_and_store_ok:
  assumes "no_faults h" and "tokenAt h (tick w) = Ok data"
  shows "fst (refresh_and_store h accId cfg r w) =
           Inr (OAuth2Credentials (access_token data)
                  (if truthy (refresh_token data) then the (refresh_token data) else r)
                  (toISOString h (clockAt h (tick w + 1) + expires_in data * 1000)))"
proof -
  let ?w1 = "w\<lparr>tick := tick w + 1, effects := effects w @ [TokenRequest cfg r]\<rparr>"
  let ?c = "OAuth2Credentials (access_token data)
                  (if truthy (refresh_token data) then the (refresh_token data) else r)
                  (toISOString h (clockAt h (tick w + 1) + expires_in data * 1000))"
  from updateCredentials_ok[OF assms(1)] obtain w' where
    "updateCredentials h accId ?c (?w1\<lparr>tick := tick ?w1 + 1\<rparr>) = (Inr (), w')" by blast
  with assms(2) show ?thesis
    by (simp add: refresh_and_store_def refreshAccessToken_def bind_def now_ms_def Let_def ret_def)
qed

text \<open>
  C9. With a token inside the five-minute buffer, a Google account whose client id or
  client secret is not configured makes \<open>ensureFreshCredentials\<close> throw, before any
  request. An Outlook account without a configured client id sends the refresh request
  with the built-in default client id, and returns the new credentials when the token
  endpoint answers and the host raises nothing.
\<close>

theorem google_needs_config_outlook_defaults:
  assumes "credentials account = OAuth2Credentials a r e"
    and "dateParse h e = Some E" and "E - 5 * 60 * 1000 \<le> clockAt h (tick w)"
  shows "(provider account = google \<and>
            (\<not> truthy (googleClientId config) \<or> \<not> truthy (googleClientSecret config)) \<longrightarrow>
          ensureFreshCredentials h account config w =
            (Inl ''Google OAuth configuration missing for token refresh'',
             w\<lparr>tick := tick w + 1\<rparr>)) \<and>
         (provider account = outlook \<and> \<not> truthy (outlookClientId config) \<longrightarrow>
          effects (snd (ensureFreshCredentials h account config w)) =
            effects w @ [TokenRequest (createOutlookConfig DEFAULT_OUTLOOK_CALENDAR_CLIENT_ID
                                         (outlookTenantId config)) r] \<and>
          (\<forall>data. no_faults h \<and> tokenAt h (tick w + 1) = Ok data \<longrightarrow>
             fst (ensureFreshCredentials h account config w) =
               Inr (OAuth2Credentials (access_token data)
                      (if truthy (refresh_token data) then the (refresh_token data) else r)
                      (toISOString h (clockAt h (tick w + 2) + expires_in data * 1000)))))"
proof -
  have ex: "token_expired h e w" using assms(2,3) by (simp add: token_expired_def)
  have g: "ensureFreshCredentials h account config w =
            (Inl ''Google OAuth configuration missing for token refresh'', w\<lparr>tick := tick w + 1\<rparr>)"
    if "provider account = google"
      "\<not> truthy (googleClientId config) \<or> \<not> truthy (googleClientSecret config)"
    using that ex by (auto simp: ensure_google[OF assms(1)])
  have o: "ensureFreshCredentials h account config w =
             refresh_and_store h (acc_id account)
               (createOutlookConfig DEFAULT_OUTLOOK_CALENDAR_CLIENT_ID (outlookTenantId config)) r
               (w\<lparr>tick := tick w + 1\<rparr>)"
    if "provider account = outlook" "\<not> truthy (outlookClientId config)"
    using that ex by (simp add: ensure_outlook[OF assms(1)])
  show ?thesis
  proof (intro conjI impI allI)
    assume "provider account = google \<and>
            (\<not> truthy (googleClientId config) \<or> \<not> truthy (googleClientSecret config))"
    then show "ensureFreshCredentials h account config w =
            (Inl ''Google OAuth configuration missing for token refresh'', w\<lparr>tick := tick w + 1\<rparr>)"
      using g by blast
  next
    assume "provider account = outlook \<and> \<not> truthy (outlookClientId config)"
    then show "effects (snd (ensureFreshCredentials h account config w)) =
            effects w @ [TokenRequest (createOutlookConfig DEFAULT_OUTLOOK_CALENDAR_CLIENT_ID
                                         (outlookTenantId config)) r]"
      using o by (simp add: refresh_and_store_effects)
  next
    fix data
    assume p: "provider account = outlook \<and> \<not> truthy (outlookClientId config)"
      and q: "no_faults h \<and> tokenAt h (tick w + 1) = Ok data"
    from q have "fst (refresh_and_store h (acc_id account)
               (createOutlookConfig DEFAULT_OUTLOOK_CALENDAR_CLIENT_ID (outlookTenantId config)) r
               (w\<lparr>tick := tick w + 1\<rparr>)) =
               Inr (OAuth2Credentials (access_token data)
                      (if truthy (refresh_token data) then the (refresh_token data) else r)
                      (toISOString h (clockAt h (tick w + 2) + expires_in data * 1000)))"
      using refresh_and_store_ok[of h "w\<lparr>tick := tick w + 1\<rparr>" data] by simp
    with p o show "fst (ensureFreshCredentials h account config w) =
               Inr (OAuth2Credentials (access_token data)
                      (if truthy (refresh_token data) then the (refresh_token data) else r)
                      (toISOString h (clockAt h (tick w + 2) + expires_in data * 1000)))"
      by simp
  qed
qed

text \<open>
  C4, as amended. Credentials that are not OAuth2 are returned unchanged, with no call to
  the host. For an Outlook account, and for a Google account whose client id and secret
  are configured, with an expiry that is a date: before the buffer the stored credentials
  are returned and nothing is sent; from \<open>expiresAt\<close> minus five minutes on, one token
  request with the stored refresh token is sent, and when the call returns, the new
  credentials it returns are those in the secret store of a stored account.
\<close>

theorem refresh_iff_within_buffer:
  "((\<forall>a r e. credentials account \<noteq> OAuth2Credentials a r e) \<longrightarrow>
      ensureFreshCredentials h account config w = (Inr (credentials account), w)) \<and>
   (credentials account = OAuth2Credentials a r e \<and> dateParse h e = Some E \<and>
    (provider account = google \<and> truthy (googleClientId config) \<and>
       truthy (googleClientSecret config) \<or> provider account = outlook) \<longrightarrow>
      (clockAt h (tick w) < E - 5 * 60 * 1000 \<longrightarrow>
         ensureFreshCredentials h account config w =
           (Inr (credentials account), w\<lparr>tick := tick w + 1\<rparr>)) \<and>
      (E - 5 * 60 * 1000 \<le> clockAt h (tick w) \<longrightarrow>
         (\<exists>cfg. effects (snd (ensureFreshCredentials h account config w)) =
                  effects w @ [TokenRequest cfg r]) \<and>
         (\<forall>c' w' d. ensureFreshCredentials h account config w = (Inr c', w') \<and>
              storage_get (acc_id account) (coll_accounts w) = Some d \<longrightarrow>
            storage_get (getCredentialsKey (acc_id account)) (secrets w') = Some c' \<and>
            (\<exists>data. tokenAt h (tick w + 1) = Ok data \<and>
               c' = OAuth2Credentials (access_token data)
                      (if truthy (refresh_token data) then the (refresh_token data) else r)
                      (toISOString h (clockAt h (tick w + 2) + expires_in data * 1000))))))"
proof (intro conjI impI)
  assume "\<forall>a r e. credentials account \<noteq> OAuth2Credentials a r e"
  then show "ensureFreshCredentials h account config w = (Inr (credentials account), w)"
    by (intro ensure_not_oauth2) blast
next
  assume A: "credentials account = OAuth2Credentials a r e \<and> dateParse h e = Some E \<and>
    (provider account = google \<and> truthy (googleClientId config) \<and>
       truthy (googleClientSecret config) \<or> provider account = outlook)"
  then have c: "credentials account = OAuth2Credentials a r e" and d: "dateParse h e = Some E"
    by simp_all
  { assume "clockAt h (tick w) < E - 5 * 60 * 1000"
    then have "\<not> token_expired h e w" using d by (simp add: token_expired_def)
    with A show "ensureFreshCredentials h account config w =
           (Inr (credentials account), w\<lparr>tick := tick w + 1\<rparr>)"
      by (auto simp: ensure_google[OF c] ensure_outlook[OF c]) }
  assume "E - 5 * 60 * 1000 \<le> clockAt h (tick w)"
  then have ex: "token_expired h e w" using d by (simp add: token_expired_def)
  from A ex obtain cfg where run: "ensureFreshCredentials h account config w =
      refresh_and_store h (acc_id account) cfg r (w\<lparr>tick := tick w + 1\<rparr>)"
    by (auto simp: ensure_google[OF c] ensure_outlook[OF c])
  show "\<exists>cfg. effects (snd (ensureFreshCredentials h account config w)) =
                  effects w @ [TokenRequest cfg r]"
    unfolding run by (rule exI[of _ cfg]) (simp add: refresh_and_store_effects)
  show "\<forall>c' w' d. ensureFreshCredentials h account config w = (Inr c', w') \<and>
              storage_get (acc_id account) (coll_accounts w) = Some d \<longrightarrow>
            storage_get (getCredentialsKey (acc_id account)) (secrets w') = Some c' \<and>
            (\<exists>data. tokenAt h (tick w + 1) = Ok data \<and>
               c' = OAuth2Credentials (access_token data)
                      (if truthy (refresh_token data) then the (refresh_token data) else r)
                      (toISOString h (clockAt h (tick w + 2) + expires_in data * 1000)))"
  proof (intro allI impI)
    fix c' w' d
    assume "ensureFreshCredentials h account config w = (Inr c', w') \<and>
              storage_get (acc_id account) (coll_accounts w) = Some d"
    then have "refresh_and_store h (acc_id account) cfg r (w\<lparr>tick := tick w + 1\<rparr>) = (Inr c', w')"
      and "storage_get (acc_id account) (coll_accounts (w\<lparr>tick := tick w + 1\<rparr>)) = Some d"
      using run by simp_all
    from refresh_and_store_Inr[OF this]
    show "storage_get (getCredentialsKey (acc_id account)) (secrets w') = Some c' \<and>
            (\<exists>data. tokenAt h (tick w + 1) = Ok data \<and>
               c' = OAuth2Credentials (access_token data)
                      (if truthy (refresh_token data) then the (refresh_token data) else r)
                      (toISOString h (clockAt h (tick w + 2) + expires_in data * 1000)))"
      by simp
  qed
qed

section \<open>Reminders\<close>

lemma appendInstruction_run:
  "appendInstruction h txt uId w =
     ((case faultAt h (tick w) of Some e \<Rightarrow> Inl e | None \<Rightarrow> Inr ()),
      w\<lparr>tick := tick w + 1, effects := effects w @ [AppendInstruction txt uId]\<rparr>)"
  by (simp add: appendInstruction_def Let_def split: option.splits)

lemma fireReminder_nochat:
  "\<not> has_chat deps \<Longrightarrow> fireReminder h deps e settings uId w = (Inr (), w)"
  by (simp add: fireReminder_def ret_def)

lemma fireReminder_chat:
  assumes "has_chat deps"
  shows "\<exists>eff. is_reminder_for settings uId e eff \<and>
     fireReminder h deps e settings uId w =
       ((case faultAt h (delivery_tick deps w) of Some x \<Rightarrow> Inl x | None \<Rightarrow> Inr ()),
        w\<lparr>tick := delivery_tick deps w + 1, effects := effects w @ [eff]\<rparr>)"
proof (cases "has_user deps")
  case False
  with assms show ?thesis
    by (auto simp: fireReminder_def bind_def ret_def appendInstruction_run delivery_tick_def
        is_reminder_for_def)
next
  case True
  show ?thesis
  proof (cases "profileAt h (tick w)")
    case (Inl x)
    with True assms show ?thesis
      by (auto simp: fireReminder_def bind_def ret_def try_catch_def getProfile_def
          appendInstruction_run delivery_tick_def is_reminder_for_def)
  next
    case (Inr p)
    with True assms show ?thesis
      by (auto simp: fireReminder_def bind_def ret_def try_catch_def getProfile_def
          appendInstruction_run delivery_tick_def is_reminder_for_def)
  qed
qed

lemma reminder_step_skip:
  "reminder_key e \<in> fired \<Longrightarrow>
   reminder_step h deps uId settings nowMs e (fired, ef) w = (Inr (fired, ef), w)"
  by (simp add: reminder_step_def Let_def ret_def reminder_key_def)

lemma reminder_step_not_due:
  "\<not> due h settings nowMs e \<Longrightarrow>
   \<exists>ef'. reminder_step h deps uId settings nowMs e (fired, ef) w = (Inr (fired, ef'), w)"
  by (auto simp: reminder_step_def Let_def ret_def due_def REMINDER_GRACE_MS_def
      split: option.splits)

lemma reminder_step_due_nochat:
  "due h settings nowMs e \<Longrightarrow> reminder_key e \<notin> fired \<Longrightarrow> \<not> has_chat deps \<Longrightarrow>
   reminder_step h deps uId settings nowMs e (fired, ef) w
     = (Inr (insert (reminder_key e) fired, ef), w)"
  by (auto simp: reminder_step_def Let_def ret_def due_def REMINDER_GRACE_MS_def
      reminder_key_def try_catch_def bind_def fireReminder_nochat split: option.splits)

lemma reminder_step_due_chat:
  assumes "due h settings nowMs e" and "reminder_key e \<notin> fired" and "has_chat deps"
  shows "\<exists>eff. is_reminder_for settings uId e eff \<and>
     reminder_step h deps uId settings nowMs e (fired, ef) w =
       (Inr (if faultAt h (delivery_tick deps w) = None
             then insert (reminder_key e) fired else fired, ef),
        w\<lparr>tick := delivery_tick deps w + 1, effects := effects w @ [eff]\<rparr>)"
proof -
  from fireReminder_chat[OF assms(3), of settings uId e h w] obtain eff where
    eff: "is_reminder_for settings uId e eff" and
    run: "fireReminder h deps e settings uId w =
       ((case faultAt h (delivery_tick deps w) of Some x \<Rightarrow> Inl x | None \<Rightarrow> Inr ()),
        w\<lparr>tick := delivery_tick deps w + 1, effects := effects w @ [eff]\<rparr>)" by blast
  from assms(1) obtain T where T: "dateParse h (startAt e) = Some T"
    by (auto simp: due_def split: option.splits)
  have "reminder_step h deps uId settings nowMs e (fired, ef) w =
       (Inr (if faultAt h (delivery_tick deps w) = None
             then insert (reminder_key e) fired else fired, ef),
        w\<lparr>tick := delivery_tick deps w + 1, effects := effects w @ [eff]\<rparr>)"
    using assms(1,2) T run
    by (cases "faultAt h (delivery_tick deps w)")
       (simp_all add: reminder_step_def Let_def ret_def due_def REMINDER_GRACE_MS_def
          reminder_key_def try_catch_def bind_def)
  with eff show ?thesis by blast
qed

lemma reminder_step_run:
  "\<exists>fired' ef' w' es effs.
     reminder_step h deps uId settings nowMs e (fired, ef) w = (Inr (fired', ef'), w') \<and>
     fired \<subseteq> fired' \<and> effects w' = effects w @ effs \<and>
     list_all2 (is_reminder_for settings uId) es effs \<and> set es \<subseteq> {e} \<and>
     (\<forall>x \<in> set es. due h settings nowMs x \<and> reminder_key x \<notin> fired) \<and>
     coll_events w' = coll_events w"
proof -
  consider (skip) "reminder_key e \<in> fired"
    | (later) "reminder_key e \<notin> fired" "\<not> due h settings nowMs e"
    | (quiet) "reminder_key e \<notin> fired" "due h settings nowMs e" "\<not> has_chat deps"
    | (fire) "reminder_key e \<notin> fired" "due h settings nowMs e" "has_chat deps"
    by blast
  then show ?thesis
  proof cases
    case skip
    from reminder_step_skip[OF skip, of h deps uId settings nowMs ef w] show ?thesis
      by (intro exI[of _ fired] exI[of _ ef] exI[of _ w] exI[of _ "[]"]) simp
  next
    case later
    from reminder_step_not_due[OF later(2), of deps uId fired ef w] obtain ef' where
      "reminder_step h deps uId settings nowMs e (fired, ef) w = (Inr (fired, ef'), w)" by blast
    then show ?thesis
      by (intro exI[of _ fired] exI[of _ ef'] exI[of _ w] exI[of _ "[]"]) simp
  next
    case quiet
    from reminder_step_due_nochat[OF quiet(2) quiet(1) quiet(3), of uId ef w] show ?thesis
      by (intro exI[of _ "insert (reminder_key e) fired"] exI[of _ ef] exI[of _ w]
          exI[of _ "[]"]) auto
  next
    case fire
    from reminder_step_due_chat[OF fire(2) fire(1) fire(3), of uId ef w] obtain eff where
      eff: "is_reminder_for settings uId e eff" and
      run: "reminder_step h deps uId settings nowMs e (fired, ef) w =
       (Inr (if faultAt h (delivery_tick deps w) = None
             then insert (reminder_key e) fired else fired, ef),
        w\<lparr>tick := delivery_tick deps w + 1, effects := effects w @ [eff]\<rparr>)" by blast
    show ?thesis
      apply (rule exI[of _ "if faultAt h (delivery_tick deps w) = None
             then insert (reminder_key e) fired else fired"])
      apply (rule exI[of _ ef])
      apply (rule exI[of _ "w\<lparr>tick := delivery_tick deps w + 1, effects := effects w @ [eff]\<rparr>"])
      apply (rule exI[of _ "[e]"])
      apply (rule exI[of _ "[eff]"])
      using eff run fire by auto
  qed
qed

lemma reminder_loop_run:
  "\<exists>fired' ef' w' es effs.
     reminder_loop h deps uId settings nowMs evs (fired, ef) w = (Inr (fired', ef'), w') \<and>
     fired \<subseteq> fired' \<and> effects w' = effects w @ effs \<and>
     list_all2 (is_reminder_for settings uId) es effs \<and> set es \<subseteq> set evs \<and>
     (\<forall>x \<in> set es. due h settings nowMs x \<and> reminder_key x \<notin> fired) \<and>
     coll_events w' = coll_events w"
proof (induction evs arbitrary: fired ef w)
  case Nil
  show ?case
    by (intro exI[of _ fired] exI[of _ ef] exI[of _ w] exI[of _ "[]"]) (simp add: ret_def)
next
  case (Cons e evs)
  from reminder_step_run[of h deps uId settings nowMs e fired ef w]
  obtain f1 ef1 w1 es1 effs1 where
    s1: "reminder_step h deps uId settings nowMs e (fired, ef) w = (Inr (f1, ef1), w1)"
    and m1: "fired \<subseteq> f1" and e1: "effects w1 = effects w @ effs1"
    and l1: "list_all2 (is_reminder_for settings uId) es1 effs1" and sub1: "set es1 \<subseteq> {e}"
    and d1: "\<forall>x \<in> set es1. due h settings nowMs x \<and> reminder_key x \<notin> fired"
    and c1: "coll_events w1 = coll_events w" by blast
  from Cons.IH[of f1 ef1 w1]
  obtain f2 ef2 w2 es2 effs2 where
    s2: "reminder_loop h deps uId settings nowMs evs (f1, ef1) w1 = (Inr (f2, ef2), w2)"
    and m2: "f1 \<subseteq> f2" and e2: "effects w2 = effects w1 @ effs2"
    and l2: "list_all2 (is_reminder_for settings uId) es2 effs2" and sub2: "set es2 \<subseteq> set evs"
    and d2: "\<forall>x \<in> set es2. due h settings nowMs x \<and> reminder_key x \<notin> f1"
    and c2: "coll_events w2 = coll_events w1" by blast
  have run: "reminder_loop h deps uId settings nowMs (e # evs) (fired, ef) w = (Inr (f2, ef2), w2)"
    using s1 s2 by (simp add: bind_def)
  have l: "list_all2 (is_reminder_for settings uId) (es1 @ es2) (effs1 @ effs2)"
    using l1 l2 by (rule list_all2_appendI)
  show ?case
    apply (rule exI[of _ f2], rule exI[of _ ef2], rule exI[of _ w2])
    apply (rule exI[of _ "es1 @ es2"], rule exI[of _ "effs1 @ effs2"])
    using run m1 m2 e1 e2 l sub1 sub2 d1 d2 c1 c2 by auto
qed

lemma take_filter_take:
  "\<exists>zs. take n (filter P xs) = take n (filter P (take n xs)) @ zs"
proof -
  let ?A = "filter P (take n xs)"
  have len: "length ?A \<le> n"
    by (rule order_trans[OF length_filter_le]) simp
  have "filter P xs = ?A @ filter P (drop n xs)"
    by (metis append_take_drop_id filter_append)
  then have "take n (filter P xs) = take n (?A @ filter P (drop n xs))" by simp
  also have "\<dots> = ?A @ take (n - length ?A) (filter P (drop n xs))"
    using len by simp
  also have "?A = take n ?A" using len by simp
  finally show ?thesis by blast
qed

lemma list_events_world: "snd (list_events h options w) = w\<lparr>tick := tick w + 1\<rparr>"
  by (cases "faultAt h (tick w)")
     (simp_all add: list_events_def Let_def bind_def host_call_def ret_def)

lemma getUpcoming_result:
  assumes "getUpcoming h fromDate toDate w = (Inr rs, w')"
  shows "rs = take 200 (filter (\<lambda>d. (fromDate \<noteq> [] \<longrightarrow> fromDate \<le> endAt d) \<and>
                 (toDate \<noteq> [] \<longrightarrow> startAt d \<le> toDate) \<and> responseStatus d \<noteq> Some ''declined'')
            (take 200 (sort_key startAt (map snd (coll_events w)))))"
  using list_events_result[OF assms[unfolded getUpcoming_def]]
  by (simp add: listLimit_def listOffset_def listQuery_def[abs_def] listFilter_def[abs_def] truthy_def)

lemma getUpcoming_prefix:
  assumes "getUpcoming h fromDate toDate w = (Inr rs, w')"
  shows "length rs \<le> 200 \<and> (\<exists>zs. take 200 (window_events fromDate toDate (coll_events w)) = rs @ zs)"
  unfolding getUpcoming_result[OF assms] window_events_def
  using take_filter_take[of 200] by simp

lemma settings_get_events: "preserves coll_events (settings_get h)"
  unfolding settings_get_def Let_def
  by (intro preserves_bind preserves_host_call)
     (simp_all split: option.splits add: preserves_bind preserves_host_call preserves_now_iso)

lemma settings_get_effects: "preserves effects (settings_get h)"
  unfolding settings_get_def Let_def
  by (intro preserves_bind preserves_host_call)
     (simp_all split: option.splits add: preserves_bind preserves_host_call preserves_now_iso)

lemma reminders_phase_run:
  "\<exists>fired' next w' settings now es effs.
     reminders_phase h deps uId fired w = (Inr (fired', next), w') \<and>
     fired \<subseteq> fired' \<and> effects w' = effects w @ effs \<and>
     list_all2 (is_reminder_for settings uId) es effs \<and>
     (\<forall>x \<in> set es. due h settings now x \<and> reminder_key x \<notin> fired) \<and>
     set es \<subseteq> set (take 200 (window_events (toISOString h now)
                      (toISOString h (now + 24 * 60 * 60 * 1000)) (coll_events w)))"
proof (cases "settings_get h w")
  case (Pair r1 w1)
  have ev1: "coll_events w1 = coll_events w" and ef1: "effects w1 = effects w"
    using preservesD[OF settings_get_events Pair] preservesD[OF settings_get_effects Pair]
    by simp_all
  show ?thesis
  proof (cases r1)
    case (Inl err)
    with Pair have "reminders_phase h deps uId fired w = (Inr (fired, POLL_INTERVAL_MS), w1)"
      by (simp add: reminders_phase_def try_catch_def bind_def ret_def)
    with ef1 show ?thesis
      by (intro exI[of _ fired] exI[of _ POLL_INTERVAL_MS] exI[of _ w1] exI[of _ "[]"]) simp
  next
    case (Inr settings)
    let ?now = "clockAt h (tick w1)"
    let ?w2 = "w1\<lparr>tick := tick w1 + 1\<rparr>"
    let ?f = "toISOString h ?now"
    let ?t = "toISOString h (?now + 24 * 60 * 60 * 1000)"
    obtain r3 w3 where up: "getUpcoming h ?f ?t ?w2 = (r3, w3)" by (cases "getUpcoming h ?f ?t ?w2")
    have "snd (getUpcoming h ?f ?t ?w2) = ?w2\<lparr>tick := tick ?w2 + 1\<rparr>"
      unfolding getUpcoming_def by (rule list_events_world)
    then have w3: "w3 = ?w2\<lparr>tick := tick ?w2 + 1\<rparr>"
      using up by simp
    show ?thesis
    proof (cases r3)
      case (Inl err)
      with Pair Inr up have "reminders_phase h deps uId fired w = (Inr (fired, POLL_INTERVAL_MS), w3)"
        by (simp add: reminders_phase_def try_catch_def bind_def ret_def now_ms_def Let_def)
      with ef1 w3 show ?thesis
        by (intro exI[of _ fired] exI[of _ POLL_INTERVAL_MS] exI[of _ w3] exI[of _ "[]"]) simp
    next
      case evs: (Inr evs)
      from reminder_loop_run[of h deps uId settings ?now evs fired None w3]
      obtain f' ef' w' es effs where
        run: "reminder_loop h deps uId settings ?now evs (fired, None) w3 = (Inr (f', ef'), w')"
        and m: "fired \<subseteq> f'" and e: "effects w' = effects w3 @ effs"
        and l: "list_all2 (is_reminder_for settings uId) es effs" and sub: "set es \<subseteq> set evs"
        and d: "\<forall>x \<in> set es. due h settings ?now x \<and> reminder_key x \<notin> fired" by blast
      from getUpcoming_prefix[OF up[unfolded evs]] obtain zs where
        "take 200 (window_events ?f ?t (coll_events ?w2)) = evs @ zs" by blast
      then have inw: "set evs \<subseteq> set (take 200 (window_events ?f ?t (coll_events w)))"
        using ev1 by simp
      have res: "reminders_phase h deps uId fired w =
        (Inr (f', case ef' of None \<Rightarrow> POLL_INTERVAL_MS | Some x \<Rightarrow> min x POLL_INTERVAL_MS), w')"
        using Pair Inr up evs run
        by (simp add: reminders_phase_def try_catch_def bind_def ret_def now_ms_def Let_def)
      show ?thesis
        apply (rule exI[of _ f'])
        apply (rule exI[of _ "case ef' of None \<Rightarrow> POLL_INTERVAL_MS | Some x \<Rightarrow> min x POLL_INTERVAL_MS"])
        apply (rule exI[of _ w'], rule exI[of _ settings], rule exI[of _ ?now])
        apply (rule exI[of _ es], rule exI[of _ effs])
        using res m e l d sub inw ef1 w3 by auto
    qed
  qed
qed

text \<open>
  C5, as amended. For an event that the pass scans, with a lead time of 15 minutes, a start
  that is the date \<open>T\<close> and a chat sink configured: the step sends the reminder exactly
  when \<open>T - 15min \<le> now < T - 15min + 5min\<close> and the key \<open>uid-startAt\<close> is not in the
  fired set; the key is added when the delivery returns, and the set never shrinks. A whole
  pass sends no reminder for an event whose key is in the fired set at its start.
\<close>

theorem reminder_fires_within_grace:
  assumes "reminderMinutes settings = 15" and "dateParse h (startAt e) = Some T"
    and "has_chat deps"
  shows "(\<exists>fired' ef' w' effs.
            reminder_step h deps uId settings nowMs e (fired, ef) w = (Inr (fired', ef'), w') \<and>
            fired \<subseteq> fired' \<and> effects w' = effects w @ effs \<and>
            (if T - 15 * 60 * 1000 \<le> nowMs \<and> nowMs < T - 15 * 60 * 1000 + 5 * 60 * 1000 \<and>
                reminder_key e \<notin> fired
             then (\<exists>eff. effs = [eff] \<and> is_reminder_for settings uId e eff) \<and>
                  (faultAt h (delivery_tick deps w) = None \<longrightarrow> reminder_key e \<in> fired')
             else effs = [] \<and> fired' = fired)) \<and>
         (\<exists>fired' next w' st now es effs.
            reminders_phase h deps uId fired w = (Inr (fired', next), w') \<and>
            fired \<subseteq> fired' \<and> effects w' = effects w @ effs \<and>
            list_all2 (is_reminder_for st uId) es effs \<and>
            (\<forall>x \<in> set es. reminder_key x \<notin> fired))"
proof
  have d: "due h settings nowMs e \<longleftrightarrow>
        T - 15 * 60 * 1000 \<le> nowMs \<and> nowMs < T - 15 * 60 * 1000 + 5 * 60 * 1000"
    using assms(1,2) by (simp add: due_def)
  show "\<exists>fired' ef' w' effs.
            reminder_step h deps uId settings nowMs e (fired, ef) w = (Inr (fired', ef'), w') \<and>
            fired \<subseteq> fired' \<and> effects w' = effects w @ effs \<and>
            (if T - 15 * 60 * 1000 \<le> nowMs \<and> nowMs < T - 15 * 60 * 1000 + 5 * 60 * 1000 \<and>
                reminder_key e \<notin> fired
             then (\<exists>eff. effs = [eff] \<and> is_reminder_for settings uId e eff) \<and>
                  (faultAt h (delivery_tick deps w) = None \<longrightarrow> reminder_key e \<in> fired')
             else effs = [] \<and> fired' = fired)"
  proof (cases "due h settings nowMs e \<and> reminder_key e \<notin> fired")
    case True
    from reminder_step_due_chat[OF conjunct1[OF True] conjunct2[OF True] assms(3), of uId ef w]
    obtain eff where eff: "is_reminder_for settings uId e eff" and
      run: "reminder_step h deps uId settings nowMs e (fired, ef) w =
       (Inr (if faultAt h (delivery_tick deps w) = None
             then insert (reminder_key e) fired else fired, ef),
        w\<lparr>tick := delivery_tick deps w + 1, effects := effects w @ [eff]\<rparr>)" by blast
    show ?thesis
      apply (rule exI[of _ "if faultAt h (delivery_tick deps w) = None
             then insert (reminder_key e) fired else fired"])
      apply (rule exI[of _ ef])
      apply (rule exI[of _ "w\<lparr>tick := delivery_tick deps w + 1, effects := effects w @ [eff]\<rparr>"])
      apply (rule exI[of _ "[eff]"])
      using True eff run d by auto
  next
    case False
    then consider (skip) "reminder_key e \<in> fired" | (later) "\<not> due h settings nowMs e" by blast
    then show ?thesis
    proof cases
      case skip
      from reminder_step_skip[OF skip, of h deps uId settings nowMs ef w] skip show ?thesis
        by (intro exI[of _ fired] exI[of _ ef] exI[of _ w] exI[of _ "[]"]) simp
    next
      case later
      from reminder_step_not_due[OF later, of deps uId fired ef w] obtain ef' where
        "reminder_step h deps uId settings nowMs e (fired, ef) w = (Inr (fired, ef'), w)" by blast
      with later d show ?thesis
        by (intro exI[of _ fired] exI[of _ ef'] exI[of _ w] exI[of _ "[]"]) auto
    qed
  qed
next
  from reminders_phase_run[of h deps uId fired w]
  show "\<exists>fired' next w' st now es effs.
            reminders_phase h deps uId fired w = (Inr (fired', next), w') \<and>
            fired \<subseteq> fired' \<and> effects w' = effects w @ effs \<and>
            list_all2 (is_reminder_for st uId) es effs \<and>
            (\<forall>x \<in> set es. reminder_key x \<notin> fired)"
    by blast
qed

text \<open>
  C10. \<open>getUpcoming\<close> returns at most 200 events, and they are a prefix of the first 200
  events of the window that are not declined, in order of start. A reminder phase sends
  reminders only for events among those first 200 of its window, so an event beyond them
  gets none in that pass.
\<close>

theorem upcoming_capped_at_200:
  "(getUpcoming h fromDate toDate w = (Inr rs, w') \<longrightarrow>
      length rs \<le> 200 \<and>
      (\<exists>zs. take 200 (window_events fromDate toDate (coll_events w)) = rs @ zs)) \<and>
   (\<exists>fired' next w2 st now es effs.
      reminders_phase h deps uId fired w = (Inr (fired', next), w2) \<and>
      effects w2 = effects w @ effs \<and> list_all2 (is_reminder_for st uId) es effs \<and>
      set es \<subseteq> set (take 200 (window_events (toISOString h now)
                       (toISOString h (now + 24 * 60 * 60 * 1000)) (coll_events w))))"
proof
  show "getUpcoming h fromDate toDate w = (Inr rs, w') \<longrightarrow>
      length rs \<le> 200 \<and>
      (\<exists>zs. take 200 (window_events fromDate toDate (coll_events w)) = rs @ zs)"
    using getUpcoming_prefix by blast
next
  from reminders_phase_run[of h deps uId fired w]
  show "\<exists>fired' next w2 st now es effs.
      reminders_phase h deps uId fired w = (Inr (fired', next), w2) \<and>
      effects w2 = effects w @ effs \<and> list_all2 (is_reminder_for st uId) es effs \<and>
      set es \<subseteq> set (take 200 (window_events (toISOString h now)
                       (toISOString h (now + 24 * 60 * 60 * 1000)) (coll_events w)))"
    by blast
qed

section \<open>Sync orchestration\<close>

lemma try_catch_ignore:
  "\<exists>w'. try_catch m (\<lambda>e. ret ()) w = (Inr (), w') \<and> w' = snd (m w)"
  by (cases "m w") (auto simp: try_catch_def ret_def split: sum.splits)

lemma syncAccountEvents_total:
  "\<exists>w'. syncAccountEvents h deps account w = (Inr (), w')"
proof (cases "sync_pass h deps account w")
  case (Pair r w1)
  show ?thesis
  proof (cases r)
    case (Inl msg)
    from try_catch_ignore[of "updateSyncStatus h (acc_id account) (Some msg)" w1]
    obtain w' where "try_catch (updateSyncStatus h (acc_id account) (Some msg)) (\<lambda>e. ret ()) w1
        = (Inr (), w')" by blast
    with Pair Inl show ?thesis by (simp add: syncAccountEvents_def try_catch_def)
  next
    case (Inr u)
    with Pair show ?thesis by (simp add: syncAccountEvents_def try_catch_def)
  qed
qed

lemma syncAccountEvents_caught:
  assumes "sync_pass h deps account w = (Inl msg, w1)"
  shows "syncAccountEvents h deps account w
           = (Inr (), snd (updateSyncStatus h (acc_id account) (Some msg) w1))"
  using assms try_catch_ignore[of "updateSyncStatus h (acc_id account) (Some msg)" w1]
  by (auto simp: syncAccountEvents_def try_catch_def)

lemma updateSyncStatus_records:
  assumes "storage_get a (coll_accounts w) = Some d"
    and "faultAt h (tick w) = None" and "faultAt h (tick w + 2) = None"
  shows "updateSyncStatus h a err w =
     (Inr (), w\<lparr>tick := tick w + 3,
                coll_accounts := storage_put a
                  (d\<lparr>lastSyncAt := Some (toISOString h (clockAt h (tick w + 1))),
                     lastError := err,
                     acc_updatedAt := toISOString h (clockAt h (tick w + 1))\<rparr>)
                  (coll_accounts w)\<rparr>)"
  using assms
  by (simp add: updateSyncStatus_def bind_def host_call_def now_iso_def now_ms_def ret_def Let_def)

lemma for_each_total:
  assumes "\<And>x w. fst (f x w) = Inr ()"
  shows "for_each f xs w = (Inr (), foldl (\<lambda>w x. snd (f x w)) w xs)"
proof (induction xs arbitrary: w)
  case Nil
  show ?case by (simp add: ret_def)
next
  case (Cons x xs)
  from assms[of x w] obtain w1 where "f x w = (Inr (), w1)" by (cases "f x w") simp
  with Cons show ?case by (simp add: bind_def)
qed

lemma foldl_enabled:
  "foldl (\<lambda>w a. snd ((if \<not> enabled a then ret () else g a) w)) w accounts
     = foldl (\<lambda>w a. snd (g a w)) w (filter enabled accounts)"
  by (induction accounts arbitrary: w) (simp_all add: ret_def)

lemma sync_loop_run:
  "for_each (\<lambda>account. if \<not> enabled account then ret () else syncAccountEvents h deps account)
     accounts w
   = (Inr (), foldl (\<lambda>w a. snd (syncAccountEvents h deps a w)) w (filter enabled accounts))"
proof -
  have "fst ((if \<not> enabled a then ret () else syncAccountEvents h deps a) w) = Inr ()"
    for a :: CalendarAccount and w
    using syncAccountEvents_total[of h deps a w] by (auto simp: ret_def)
  from for_each_total[of "\<lambda>account. if \<not> enabled account then ret ()
                            else syncAccountEvents h deps account", OF this]
  show ?thesis by (simp add: foldl_enabled)
qed

lemma syncAll_total:
  "\<exists>w'. syncAllAccountsWithContext h deps execUserId w = (Inr (), w')"
proof (cases "truthy execUserId")
  case False
  then show ?thesis by (simp add: syncAllAccountsWithContext_def ret_def)
next
  case True
  then show ?thesis
    using try_catch_ignore[of "bind (accounts_list h) (\<lambda>accounts.
           bind (for_each (\<lambda>account.
                   if \<not> enabled account then ret ()
                   else syncAccountEvents h deps account) accounts) (\<lambda>_.
             emitEventChanged h deps))" w]
    by (auto simp: syncAllAccountsWithContext_def)
qed

lemma syncAll_run:
  assumes "truthy execUserId" and "accounts_list h w = (Inr accounts, w1)"
  shows "syncAllAccountsWithContext h deps execUserId w =
     (Inr (), snd (emitEventChanged h deps
        (foldl (\<lambda>w a. snd (syncAccountEvents h deps a w)) w1 (filter enabled accounts))))"
proof -
  let ?w2 = "foldl (\<lambda>w a. snd (syncAccountEvents h deps a w)) w1 (filter enabled accounts)"
  show ?thesis
    using assms
    by (cases "emitEventChanged h deps ?w2")
       (auto simp: syncAllAccountsWithContext_def try_catch_def bind_def sync_loop_run ret_def
          split: sum.splits)
qed

text \<open>
  C1. \<open>syncAccountEvents\<close> never throws. When its \<open>try\<close> block throws a message, at whatever
  stage, the function ends by calling \<open>updateSyncStatus\<close> with that message, and when that
  call finds the account and the storage accepts it, the account's \<open>lastError\<close> is the
  message and its \<open>lastSyncAt\<close> the time of the call. \<open>syncAllAccountsWithContext\<close> never
  throws either, and once it has the list of accounts it runs \<open>syncAccountEvents\<close> on every
  enabled account in turn, each from the state the one before left, and then emits the
  change notification.
\<close>

theorem sync_failures_are_contained:
  "(\<exists>w'. syncAccountEvents h deps account w = (Inr (), w')) \<and>
   (sync_pass h deps account w = (Inl msg, w1) \<longrightarrow>
      syncAccountEvents h deps account w
        = (Inr (), snd (updateSyncStatus h (acc_id account) (Some msg) w1)) \<and>
      (storage_get (acc_id account) (coll_accounts w1) = Some d \<and>
       faultAt h (tick w1) = None \<and> faultAt h (tick w1 + 2) = None \<longrightarrow>
         (\<exists>d'. storage_get (acc_id account)
                  (coll_accounts (snd (syncAccountEvents h deps account w))) = Some d' \<and>
               lastError d' = Some msg \<and>
               lastSyncAt d' = Some (toISOString h (clockAt h (tick w1 + 1)))))) \<and>
   (\<exists>w'. syncAllAccountsWithContext h deps execUserId w = (Inr (), w')) \<and>
   (truthy execUserId \<and> accounts_list h w = (Inr accounts, w2) \<longrightarrow>
      syncAllAccountsWithContext h deps execUserId w =
        (Inr (), snd (emitEventChanged h deps
           (foldl (\<lambda>w a. snd (syncAccountEvents h deps a w)) w2 (filter enabled accounts)))))"
proof (intro conjI impI)
  show "\<exists>w'. syncAccountEvents h deps account w = (Inr (), w')"
    by (rule syncAccountEvents_total)
next
  assume "sync_pass h deps account w = (Inl msg, w1)"
  then show "syncAccountEvents h deps account w
        = (Inr (), snd (updateSyncStatus h (acc_id account) (Some msg) w1))"
    by (rule syncAccountEvents_caught)
next
  assume p: "sync_pass h deps account w = (Inl msg, w1)"
    and q: "storage_get (acc_id account) (coll_accounts w1) = Some d \<and>
       faultAt h (tick w1) = None \<and> faultAt h (tick w1 + 2) = None"
  from q have "updateSyncStatus h (acc_id account) (Some msg) w1 =
     (Inr (), w1\<lparr>tick := tick w1 + 3,
                coll_accounts := storage_put (acc_id account)
                  (d\<lparr>lastSyncAt := Some (toISOString h (clockAt h (tick w1 + 1))),
                     lastError := Some msg,
                     acc_updatedAt := toISOString h (clockAt h (tick w1 + 1))\<rparr>)
                  (coll_accounts w1)\<rparr>)"
    by (intro updateSyncStatus_records) simp_all
  then show "\<exists>d'. storage_get (acc_id account)
                  (coll_accounts (snd (syncAccountEvents h deps account w))) = Some d' \<and>
               lastError d' = Some msg \<and>
               lastSyncAt d' = Some (toISOString h (clockAt h (tick w1 + 1)))"
    by (simp add: syncAccountEvents_caught[OF p])
next
  show "\<exists>w'. syncAllAccountsWithContext h deps execUserId w = (Inr (), w')"
    by (rule syncAll_total)
next
  assume "truthy execUserId \<and> accounts_list h w = (Inr accounts, w2)"
  then show "syncAllAccountsWithContext h deps execUserId w =
        (Inr (), snd (emitEventChanged h deps
           (foldl (\<lambda>w a. snd (syncAccountEvents h deps a w)) w2 (filter enabled accounts))))"
    using syncAll_run by blast
qed

section \<open>Google tombstones and reconciliation\<close>

lemma google_items_run:
  assumes "\<forall>i \<in> set items. well_dated h i"
  shows "\<exists>more w'. google_items h accId calId items (evs, del) w
            = (Inr (evs @ more, del @ tombstones items), w') \<and>
          map uid more = live_uids items \<and> (\<forall>e \<in> set more. accountId e = accId)"
  using assms
proof (induction items arbitrary: evs del w)
  case Nil
  show ?case by (simp add: ret_def tombstones_def live_uids_def)
next
  case (Cons i items)
  then have wd: "well_dated h i" and rest: "\<forall>i \<in> set items. well_dated h i" by simp_all
  show ?case
  proof (cases "item_cancelled i")
    case True
    let ?del = "if truthy (item_key i) then del @ [the (item_key i)] else del"
    from Cons.IH[OF rest, of evs ?del w] obtain more w' where
      "google_items h accId calId items (evs, ?del) w
            = (Inr (evs @ more, ?del @ tombstones items), w')"
      "map uid more = live_uids items" "\<forall>e \<in> set more. accountId e = accId" by blast
    with True show ?thesis
      by (intro exI[of _ more] exI[of _ w'])
         (auto simp: item_cancelled_def item_key_def Let_def tombstones_def live_uids_def)
  next
    case False
    show ?thesis
    proof (cases "truthy (item_start i)")
      case nostart: False
      from Cons.IH[OF rest, of evs del w] obtain more w' where
        "google_items h accId calId items (evs, del) w
            = (Inr (evs @ more, del @ tombstones items), w')"
        "map uid more = live_uids items" "\<forall>e \<in> set more. accountId e = accId" by blast
      with False nostart show ?thesis
        by (intro exI[of _ more] exI[of _ w'])
           (auto simp: item_cancelled_def item_start_def Let_def tombstones_def live_uids_def)
    next
      case True
      from wd False True obtain s where s: "dateParse h (the (item_start i)) = Some s"
        by (auto simp: well_dated_def)
      have "\<exists>en. (if truthy (item_end i) then dateParse h (the (item_end i)) else Some s) = Some en"
        using wd False True by (cases "truthy (item_end i)") (auto simp: well_dated_def)
      then obtain en where
        en: "(if truthy (orElse (g_end_dateTime i) (g_end_date i))
              then dateParse h (the (orElse (g_end_dateTime i) (g_end_date i)))
              else Some s) = Some en"
        unfolding item_end_def by blast
      from s have s': "dateParse h (the (orElse (g_start_dateTime i) (g_start_date i))) = Some s"
        by (simp add: item_start_def)
      let ?now = "toISOString h (clockAt h (tick w))"
      let ?w1 = "w\<lparr>tick := tick w + 1\<rparr>"
      let ?ev = "\<lparr>accountId = accId, calendarId = calId,
                   uid = (case item_key i of Some u \<Rightarrow> u | None \<Rightarrow> []),
                   title = (if truthy (g_summary i) then the (g_summary i) else ''(No title)''),
                   description = orNull (g_description i),
                   location = orNull (g_location i),
                   startAt = toISOString h s, endAt = toISOString h en,
                   allDay = (\<not> truthy (g_start_dateTime i)),
                   recurrenceRule = None,
                   organizer = orNull (g_organizer_email i),
                   attendees = g_attendees i, responseStatus = None,
                   remoteUrl = orNull (g_htmlLink i), etag = orNull (g_etag i),
                   rawIcs = None, id' = [], createdAt = ?now, updatedAt = ?now\<rparr>"
      from Cons.IH[OF rest, of "evs @ [?ev]" del ?w1] obtain more w' where
        run: "google_items h accId calId items (evs @ [?ev], del) ?w1
            = (Inr ((evs @ [?ev]) @ more, del @ tombstones items), w')"
        and u: "map uid more = live_uids items" and a: "\<forall>e \<in> set more. accountId e = accId"
        by blast
      have "google_items h accId calId (i # items) (evs, del) w
              = (Inr (evs @ (?ev # more), del @ tombstones (i # items)), w')"
        using False True s' en run
        by (simp add: item_cancelled_def item_start_def item_key_def Let_def
            bind_def now_iso_def now_ms_def ret_def tombstones_def split del: if_split)
      moreover have "map uid (?ev # more) = live_uids (i # items)"
        using False True u by (simp add: live_uids_def)
      moreover have "\<forall>e \<in> set (?ev # more). accountId e = accId" using a by simp
      ultimately show ?thesis by blast
    qed
  qed
qed

lemma google_items_mono:
  "\<exists>more moreD w'. google_items h accId calId items (evs, del) w
            = (Inr (evs @ more, del @ moreD), w')"
proof (induction items arbitrary: evs del w)
  case Nil
  show ?case by (simp add: ret_def)
next
  case (Cons i items)
  note step = google_items.simps(2)[of h accId calId i items evs del]
  show ?case
  proof (cases "g_status i = Some ''cancelled''")
    case True
    let ?del = "if truthy (orElse (g_iCalUID i) (g_id i))
                then del @ [the (orElse (g_iCalUID i) (g_id i))] else del"
    from Cons.IH[of evs ?del w] obtain more moreD w' where
      "google_items h accId calId items (evs, ?del) w = (Inr (evs @ more, ?del @ moreD), w')"
      by blast
    with True show ?thesis
      by (cases "truthy (orElse (g_iCalUID i) (g_id i))") (simp_all add: step Let_def)
  next
    case False
    show ?thesis
    proof (cases "truthy (orElse (g_start_dateTime i) (g_start_date i))")
      case nostart: False
      from Cons.IH[of evs del w] False nostart show ?thesis by (simp add: step Let_def)
    next
      case True
      show ?thesis
      proof (cases "dateParse h (the (orElse (g_start_dateTime i) (g_start_date i)))")
        case None
        with False True show ?thesis
          by (simp add: step Let_def bind_def now_iso_def now_ms_def ret_def)
      next
        case (Some s)
        show ?thesis
        proof (cases "if truthy (orElse (g_end_dateTime i) (g_end_date i))
              then dateParse h (the (orElse (g_end_dateTime i) (g_end_date i)))
              else Some s")
          case None
          with False True Some show ?thesis
            by (simp add: step Let_def bind_def now_iso_def now_ms_def ret_def
                split del: if_split)
        next
          case en: (Some en)
          obtain ev where ev: "ev = \<lparr>accountId = accId, calendarId = calId,
                   uid = (case orElse (g_iCalUID i) (g_id i) of Some u \<Rightarrow> u | None \<Rightarrow> []),
                   title = (if truthy (g_summary i) then the (g_summary i) else ''(No title)''),
                   description = orNull (g_description i),
                   location = orNull (g_location i),
                   startAt = toISOString h s, endAt = toISOString h en,
                   allDay = (\<not> truthy (g_start_dateTime i)),
                   recurrenceRule = None,
                   organizer = orNull (g_organizer_email i),
                   attendees = g_attendees i, responseStatus = None,
                   remoteUrl = orNull (g_htmlLink i), etag = orNull (g_etag i),
                   rawIcs = None, id' = [], createdAt = toISOString h (clockAt h (tick w)),
                   updatedAt = toISOString h (clockAt h (tick w))\<rparr>" by blast
          from Cons.IH[of "evs @ [ev]" del "w\<lparr>tick := tick w + 1\<rparr>"]
          obtain more moreD w' where
            "google_items h accId calId items (evs @ [ev], del) (w\<lparr>tick := tick w + 1\<rparr>)
               = (Inr (evs @ ev # more, del @ moreD), w')" by auto
          with False True Some en ev show ?thesis
            by (simp add: step Let_def bind_def now_iso_def now_ms_def ret_def
                split del: if_split)
        qed
      qed
    qed
  qed
qed

lemma googleFetch_run:
  "googleFetch path answer w =
     ((case answer (tick w) of
         Rejected e \<Rightarrow> Inl e
       | NotOk status statusText body \<Rightarrow>
           Inl (''Google Calendar API error ('' @ status @ ''): '' @ body)
       | Ok x \<Rightarrow> Inr x),
      w\<lparr>tick := tick w + 1, effects := effects w @ [HttpGet (GOOGLE_API_BASE @ path)]\<rparr>)"
  by (simp add: googleFetch_def http_fetch_def Let_def split: http.splits)

lemma google_calendars_mono:
  "\<exists>moreE moreD t' w'. google_calendars h accId lo hi tok cals (evs, del, t) w
            = (Inr (evs @ moreE, del @ moreD, t'), w')"
proof (induction cals arbitrary: evs del t w)
  case Nil
  show ?case by (simp add: ret_def)
next
  case (Cons cal cals)
  obtain path where path: "path =
        (if truthy tok
         then ''/calendars/'' @ encodeURIComponent h (rc_id cal) @ ''/events?syncToken=''
              @ encodeURIComponent h (the tok) @ ''&singleEvents=true''
         else ''/calendars/'' @ encodeURIComponent h (rc_id cal) @ ''/events?timeMin=''
              @ toISOString h lo @ ''&timeMax='' @ toISOString h hi
              @ ''&singleEvents=true&maxResults=2500'')" by blast
  let ?w1 = "w\<lparr>tick := tick w + 1, effects := effects w @ [HttpGet (GOOGLE_API_BASE @ path)]\<rparr>"
  show ?case
  proof (cases "\<exists>d. googleEventsAt h (tick w) = Ok d")
    case False
    then have f: "try_catch (bind (googleFetch path (googleEventsAt h)) (\<lambda>d. ret (Some d)))
                 (\<lambda>e. ret None) w = (Inr None, ?w1)"
      by (cases "googleEventsAt h (tick w)")
         (simp_all add: try_catch_def bind_def googleFetch_run ret_def)
    from Cons.IH[of evs del t ?w1] f path show ?thesis
      by (simp add: Let_def bind_def split del: if_split)
  next
    case True
    then obtain d where d: "googleEventsAt h (tick w) = Ok d" by blast
    then have f: "try_catch (bind (googleFetch path (googleEventsAt h)) (\<lambda>d. ret (Some d)))
                 (\<lambda>e. ret None) w = (Inr (Some d), ?w1)"
      by (simp add: try_catch_def bind_def googleFetch_run ret_def)
    from google_items_mono[of h accId "rc_id cal" "g_items d" evs del ?w1]
    obtain more moreD w2 where
      it: "google_items h accId (rc_id cal) (g_items d) (evs, del) ?w1
            = (Inr (evs @ more, del @ moreD), w2)" by blast
    from Cons.IH[of "evs @ more" "del @ moreD"
        "if truthy (nextSyncToken d) then nextSyncToken d else t" w2]
    obtain moreE' moreD' t' w' where
      "google_calendars h accId lo hi tok cals (evs @ more, del @ moreD,
          if truthy (nextSyncToken d) then nextSyncToken d else t) w2
         = (Inr ((evs @ more) @ moreE', (del @ moreD) @ moreD', t'), w')" by blast
    with f it path show ?thesis
      by (simp add: Let_def bind_def split del: if_split)
  qed
qed

lemma google_calendars_step:
  assumes d: "googleEventsAt h (tick w) = Ok d"
    and wd: "\<forall>i \<in> set (g_items d). well_dated h i"
    and run: "google_calendars h accId lo hi tok (cal # cals) (evs, del, t) w
                = (Inr (evs', del', t'), w')"
  shows "\<exists>more laterE laterD. evs' = evs @ more @ laterE \<and> map uid more = live_uids (g_items d) \<and>
           del' = del @ tombstones (g_items d) @ laterD"
proof -
  obtain path where path: "path =
        (if truthy tok
         then ''/calendars/'' @ encodeURIComponent h (rc_id cal) @ ''/events?syncToken=''
              @ encodeURIComponent h (the tok) @ ''&singleEvents=true''
         else ''/calendars/'' @ encodeURIComponent h (rc_id cal) @ ''/events?timeMin=''
              @ toISOString h lo @ ''&timeMax='' @ toISOString h hi
              @ ''&singleEvents=true&maxResults=2500'')" by blast
  let ?w1 = "w\<lparr>tick := tick w + 1, effects := effects w @ [HttpGet (GOOGLE_API_BASE @ path)]\<rparr>"
  from d have f: "try_catch (bind (googleFetch path (googleEventsAt h)) (\<lambda>d. ret (Some d)))
                 (\<lambda>e. ret None) w = (Inr (Some d), ?w1)"
    by (simp add: try_catch_def bind_def googleFetch_run ret_def)
  from google_items_run[OF wd, of accId "rc_id cal" evs del ?w1]
  obtain more w2 where
    it: "google_items h accId (rc_id cal) (g_items d) (evs, del) ?w1
            = (Inr (evs @ more, del @ tombstones (g_items d)), w2)"
    and u: "map uid more = live_uids (g_items d)" by blast
  from google_calendars_mono[of h accId lo hi tok cals "evs @ more"
      "del @ tombstones (g_items d)" "if truthy (nextSyncToken d) then nextSyncToken d else t" w2]
  obtain laterE laterD t2 w3 where
    rest: "google_calendars h accId lo hi tok cals (evs @ more, del @ tombstones (g_items d),
          if truthy (nextSyncToken d) then nextSyncToken d else t) w2
         = (Inr ((evs @ more) @ laterE, (del @ tombstones (g_items d)) @ laterD, t2), w3)"
    by blast
  from f it rest path have "google_calendars h accId lo hi tok (cal # cals) (evs, del, t) w
      = (Inr ((evs @ more) @ laterE, (del @ tombstones (g_items d)) @ laterD, t2), w3)"
    by (simp add: Let_def bind_def split del: if_split)
  with run have "evs' = evs @ more @ laterE" "del' = del @ tombstones (g_items d) @ laterD"
    by simp_all
  with u show ?thesis by blast
qed

lemma google_syncEvents_Inr:
  assumes "google_syncEvents h account creds lo hi tok w = (Inr r, w')"
  shows "\<exists>cals w1 evs del t.
           google_calendars h (acc_id account) lo hi tok cals ([], [], None) w1
             = (Inr (evs, del, t), w') \<and>
           events r = evs \<and> deletedUids r = (if del \<noteq> [] then Some del else None) \<and>
           res_syncToken r = t \<and> fullSync r = (\<not> truthy tok)"
proof -
  from assms obtain token w0 cals w1 res where
    "google_listCalendars h creds w0 = (Inr cals, w1)"
    and c: "google_calendars h (acc_id account) lo hi tok cals ([], [], None) w1 = (Inr res, w')"
    and r: "r = (case res of (allEvents, deleted, newSyncToken) \<Rightarrow>
          \<lparr>events = allEvents,
               deletedUids = (if deleted \<noteq> [] then Some deleted else None),
               res_syncToken = newSyncToken, res_deltaLink = None,
               fullSync = (\<not> truthy tok)\<rparr>)"
    unfolding google_syncEvents_def
    by (auto simp: bind_Inr ret_Inr split: prod.splits)
  obtain evs del t where res: "res = (evs, del, t)" by (cases res)
  show ?thesis
    apply (rule exI[of _ cals], rule exI[of _ w1])
    apply (rule exI[of _ evs], rule exI[of _ del], rule exI[of _ t])
    using c r res by simp
qed

lemma for_each_invariant:
  assumes "for_each f xs w = (Inr (), w')" and "P w"
    and "\<And>x w w'. f x w = (Inr (), w') \<Longrightarrow> P w \<Longrightarrow> P w'"
  shows "P w'"
  using assms(1,2)
proof (induction xs arbitrary: w)
  case Nil
  then show ?case by (simp add: ret_def)
next
  case (Cons x xs)
  from Cons.prems(1) obtain w1 where s: "f x w = (Inr (), w1)"
    and r: "for_each f xs w1 = (Inr (), w')"
    by (auto simp: bind_Inr)
  from assms(3)[OF s Cons.prems(2)] have "P w1" .
  with Cons.IH[OF r] show ?case .
qed

lemma upsert_wf:
  assumes "upsertByUid h acc e w = (Inr r, w')" and wf: "wf_events (coll_events w)"
  shows "wf_events (coll_events w')"
proof -
  note a = upsertByUid_Inr[OF assms(1), unfolded same_key_abs]
  have k: "\<forall>(k, d) \<in> set (coll_events w). same_key acc (uid e) d \<longrightarrow> k = id' r"
    using a by (intro upsert_key_rows[OF wf]) (auto split: option.splits)
  from a have c: "coll_events w' = storage_put (id' r) r (coll_events w)" by simp
  show ?thesis unfolding c using k a by (intro wf_put[OF wf]) (auto simp: same_key_def)
qed

lemma upsert_events_wf:
  assumes "upsert_events h acc evs w = (Inr (), w')" and "wf_events (coll_events w)"
  shows "wf_events (coll_events w')"
  using assms(1)[unfolded upsert_events_def] assms(2)
  by (rule for_each_invariant) (auto simp: bind_Inr ret_Inr dest: upsert_wf)

lemma storage_get_mem:
  "distinct (map fst c) \<Longrightarrow> (k, d) \<in> set c \<Longrightarrow> storage_get k c = Some d"
  by (induction k c rule: storage_get.induct) (auto simp: rev_image_eqI)

lemma wf_filter: "wf_events c \<Longrightarrow> wf_events (filter P c)"
  unfolding wf_events_def by (auto simp: distinct_map_filter)

lemma rows_for_subset:
  "set c' \<subseteq> set c \<Longrightarrow> rows_for acc u c = [] \<Longrightarrow> rows_for acc u c' = []"
  by (auto simp: rows_for_def filter_empty_conv)

lemma delete_event_Inr:
  "delete_event h k w = (Inr b, w') \<Longrightarrow>
     coll_events w' = (if b then storage_delete k (coll_events w) else coll_events w) \<and>
     b = (storage_get k (coll_events w) \<noteq> None)"
  by (auto simp: delete_event_def bind_Inr host_call_Inr ret_Inr split: option.splits)

lemma delete_tombstone_Inr:
  assumes run: "delete_tombstone h acc u w = (Inr (), w')" and wf: "wf_events (coll_events w)"
  shows "wf_events (coll_events w') \<and> set (coll_events w') \<subseteq> set (coll_events w) \<and>
         rows_for acc u (coll_events w') = []"
proof -
  from run obtain ex w1 where g: "getByUid h acc u w = (Inr ex, w1)"
    and rest: "(case ex of None \<Rightarrow> ret ()
                | Some x \<Rightarrow> bind (delete_event h (id' x)) (\<lambda>_. ret ())) w1 = (Inr (), w')"
    by (auto simp: delete_tombstone_def bind_Inr)
  from g have ex: "ex = storage_findOne (same_key acc u) (coll_events w)"
    and c1: "coll_events w1 = coll_events w"
    by (auto simp: getByUid_Inr same_key_abs)
  show ?thesis
  proof (cases ex)
    case None
    with rest have "w' = w1" by (simp add: ret_def)
    moreover from None ex have "rows_for acc u (coll_events w) = []"
      by (auto simp: findOne_None rows_for_def filter_empty_conv)
    ultimately show ?thesis using wf c1 by simp
  next
    case (Some x)
    with ex have f: "storage_findOne (same_key acc u) (coll_events w) = Some x" by simp
    from findOne_Some[OF f] obtain k0 where k0: "(k0, x) \<in> set (coll_events w)" by auto
    from wf k0 have idk: "id' x = k0" by (auto simp: wf_events_def)
    from wf have dist: "distinct (map fst (coll_events w))" by (simp add: wf_events_def)
    from storage_get_mem[OF dist k0] idk
    have sg: "storage_get (id' x) (coll_events w1) = Some x" using c1 by simp
    from rest Some obtain b where "delete_event h (id' x) w1 = (Inr b, w')"
      by (auto simp: bind_Inr ret_Inr)
    from delete_event_Inr[OF this] sg c1
    have c': "coll_events w' = storage_delete (id' x) (coll_events w)" by simp
    have keys: "\<forall>(k, d) \<in> set (coll_events w). same_key acc u d \<longrightarrow> k = id' x"
      using f by (intro upsert_key_rows[OF wf, where r = x]) simp
    have "rows_for acc u (coll_events w') = []"
      unfolding c' rows_for_def storage_delete_def using keys
      by (auto simp: filter_empty_conv)
    moreover have "wf_events (coll_events w')"
      unfolding c' storage_delete_def by (rule wf_filter[OF wf])
    moreover have "set (coll_events w') \<subseteq> set (coll_events w)"
      unfolding c' storage_delete_def by auto
    ultimately show ?thesis by blast
  qed
qed

lemma delete_loop_Inr:
  assumes "for_each (delete_tombstone h acc) uids w = (Inr (), w')"
    and "wf_events (coll_events w)"
  shows "wf_events (coll_events w') \<and> set (coll_events w') \<subseteq> set (coll_events w) \<and>
         (\<forall>X \<in> set uids. rows_for acc X (coll_events w') = [])"
  using assms
proof (induction uids arbitrary: w)
  case Nil
  then show ?case by (simp add: ret_def)
next
  case (Cons u uids)
  from Cons.prems(1) obtain w1 where s: "delete_tombstone h acc u w = (Inr (), w1)"
    and r: "for_each (delete_tombstone h acc) uids w1 = (Inr (), w')"
    by (auto simp: bind_Inr)
  from delete_tombstone_Inr[OF s Cons.prems(2)]
  have wf1: "wf_events (coll_events w1)" and sub1: "set (coll_events w1) \<subseteq> set (coll_events w)"
    and e1: "rows_for acc u (coll_events w1) = []" by simp_all
  from Cons.IH[OF r wf1]
  have wf2: "wf_events (coll_events w')" and sub2: "set (coll_events w') \<subseteq> set (coll_events w1)"
    and e2: "\<forall>X \<in> set uids. rows_for acc X (coll_events w') = []" by simp_all
  from rows_for_subset[OF sub2 e1] have "rows_for acc u (coll_events w') = []" .
  with wf2 sub1 sub2 e2 show ?case by auto
qed

lemma syncState_upsert_events: "preserves coll_events (syncState_upsert h a t l)"
  unfolding syncState_upsert_def Let_def
  by (intro preserves_bind preserves_host_call preserves_now_iso)
     (simp_all split: option.splits add: preserves_bind preserves_host_call)

lemma updateSyncStatus_events: "preserves coll_events (updateSyncStatus h a e)"
  unfolding updateSyncStatus_def
  by (intro preserves_bind preserves_host_call)
     (simp_all split: option.splits add: preserves_bind preserves_host_call preserves_now_iso)

lemma reconcile_deletes:
  assumes run: "reconcile h account r w = (Inr (), w')" and wf: "wf_events (coll_events w)"
    and del: "deletedUids r = Some uids" and X: "X \<in> set uids"
  shows "rows_for (acc_id account) X (coll_events w') = []"
proof -
  from run obtain w1 w2 st w3 where
    u: "upsert_events h (acc_id account) (events r) w = (Inr (), w1)"
    and d: "delete_tombstones h (acc_id account) (deletedUids r) w1 = (Inr (), w2)"
    and s: "syncState_upsert h (acc_id account) (res_syncToken r) (res_deltaLink r) w2 = (Inr st, w3)"
    and f: "updateSyncStatus h (acc_id account) None w3 = (Inr (), w')"
    by (auto simp: reconcile_def bind_Inr)
  from upsert_events_wf[OF u wf] have wf1: "wf_events (coll_events w1)" .
  from X have ne: "uids \<noteq> []" by auto
  with d del have "for_each (delete_tombstone h (acc_id account)) uids w1 = (Inr (), w2)"
    by (simp add: delete_tombstones_def)
  from delete_loop_Inr[OF this wf1] X
  have "rows_for (acc_id account) X (coll_events w2) = []" by blast
  moreover have "coll_events w3 = coll_events w2"
    using preservesD[OF syncState_upsert_events s] .
  moreover have "coll_events w' = coll_events w3"
    using preservesD[OF updateSyncStatus_events f] .
  ultimately show ?thesis by simp
qed

lemma succeeds_ret [simp]: "succeeds (ret x)"
  by (simp add: succeeds_def ret_def)

lemma succeeds_bind: "succeeds m \<Longrightarrow> (\<And>x. succeeds (f x)) \<Longrightarrow> succeeds (bind m f)"
  unfolding succeeds_def bind_def
proof (intro allI)
  fix w
  assume m: "\<forall>w. \<exists>x w'. m w = (Inr x, w')" and f: "\<And>x. \<forall>w. \<exists>y w'. f x w = (Inr y, w')"
  from m obtain x w1 where "m w = (Inr x, w1)" by blast
  moreover from f[of x] obtain y w2 where "f x w1 = (Inr y, w2)" by blast
  ultimately show "\<exists>x w'. (case m w of (Inl e, w') \<Rightarrow> (Inl e, w') | (Inr x, w') \<Rightarrow> f x w') = (Inr x, w')"
    by simp
qed

lemma succeeds_host_call: "no_faults h \<Longrightarrow> succeeds (host_call h f)"
  by (simp add: succeeds_def host_call_ok)

lemma succeeds_now_iso [simp]: "succeeds (now_iso h)"
  by (simp add: succeeds_def now_iso_def now_ms_def bind_def ret_def)

lemma succeeds_generateId [simp]: "succeeds (generateId h p)"
  by (simp add: succeeds_def generateId_def)

lemma succeeds_for_each: "(\<And>x. succeeds (f x)) \<Longrightarrow> succeeds (for_each f xs)"
  by (induction xs) (simp_all add: succeeds_bind)

lemma succeeds_getByUid: "no_faults h \<Longrightarrow> succeeds (getByUid h a u)"
  unfolding getByUid_def by (intro succeeds_bind succeeds_host_call) simp_all

lemma succeeds_upsertByUid: "no_faults h \<Longrightarrow> succeeds (upsertByUid h a e)"
  unfolding upsertByUid_def Let_def
  by (intro succeeds_bind succeeds_getByUid succeeds_now_iso)
     (auto split: option.splits intro!: succeeds_bind succeeds_host_call)

lemma succeeds_delete_event: "no_faults h \<Longrightarrow> succeeds (delete_event h k)"
  unfolding delete_event_def
  by (intro succeeds_bind succeeds_host_call)
     (auto split: option.splits intro!: succeeds_bind succeeds_host_call)

lemma succeeds_delete_tombstone: "no_faults h \<Longrightarrow> succeeds (delete_tombstone h a u)"
  unfolding delete_tombstone_def
  by (intro succeeds_bind succeeds_getByUid)
     (auto split: option.splits intro!: succeeds_bind succeeds_delete_event)

lemma succeeds_syncState_upsert: "no_faults h \<Longrightarrow> succeeds (syncState_upsert h a t l)"
  unfolding syncState_upsert_def Let_def
  by (intro succeeds_bind succeeds_now_iso succeeds_host_call)
     (auto split: option.splits intro!: succeeds_bind succeeds_host_call)

lemma succeeds_updateSyncStatus: "no_faults h \<Longrightarrow> succeeds (updateSyncStatus h a e)"
  unfolding updateSyncStatus_def
  by (intro succeeds_bind succeeds_host_call)
     (auto split: option.splits intro!: succeeds_bind succeeds_host_call)

lemma succeeds_reconcile: "no_faults h \<Longrightarrow> succeeds (reconcile h account r)"
  unfolding reconcile_def upsert_events_def delete_tombstones_def
  by (intro succeeds_bind succeeds_for_each succeeds_upsertByUid succeeds_syncState_upsert
        succeeds_updateSyncStatus)
     (auto split: option.splits intro!: succeeds_for_each succeeds_delete_tombstone)

text \<open>
  C3. In the Google provider, for a calendar response whose live items carry dates, the
  item loop adds to \<open>deletedUids\<close> exactly the keys (\<open>iCalUID\<close>, else \<open>id\<close>) of the cancelled
  items, and adds events only for the items that are not cancelled; this holds at every
  step of the calendar loop, later calendars only append, and \<open>syncEvents\<close> returns the
  collected list. \<open>reconcile\<close>, the part of \<open>syncAccountEvents\<close> that follows the provider
  call, then leaves no cached row for the account and any uid of that list, when it runs to
  its end on a well-formed cache. It does run to its end when the host raises nothing, and
  \<open>syncAccountEvents\<close> returns normally in any case.
\<close>

theorem cancelled_items_become_tombstones:
  "((\<forall>i \<in> set items. well_dated h i) \<longrightarrow>
      (\<exists>more w'. google_items h accId calId items (evs, del) w
                    = (Inr (evs @ more, del @ tombstones items), w') \<and>
                  map uid more = live_uids items) \<and>
      (\<forall>i \<in> set items. item_cancelled i \<and> truthy (item_key i) \<longrightarrow>
                          the (item_key i) \<in> set (tombstones items))) \<and>
   (googleEventsAt h (tick w) = Ok d \<and> (\<forall>i \<in> set (g_items d). well_dated h i) \<and>
    google_calendars h accId lo hi tok (cal # cals) (evs, del, t) w
      = (Inr (evs', del', t'), w1) \<longrightarrow>
      (\<exists>more laterE laterD. evs' = evs @ more @ laterE \<and>
         map uid more = live_uids (g_items d) \<and>
         del' = del @ tombstones (g_items d) @ laterD)) \<and>
   (google_syncEvents h account creds lo hi tok w = (Inr r, w2) \<longrightarrow>
      (\<exists>cs w0 es ds tk.
         google_calendars h (acc_id account) lo hi tok cs ([], [], None) w0
           = (Inr (es, ds, tk), w2) \<and>
         events r = es \<and> deletedUids r = (if ds \<noteq> [] then Some ds else None))) \<and>
   (wf_events (coll_events w) \<and> reconcile h account r w = (Inr (), w3) \<and>
    deletedUids r = Some uids \<and> X \<in> set uids \<longrightarrow>
      rows_for (acc_id account) X (coll_events w3) = []) \<and>
   (no_faults h \<longrightarrow> (\<exists>w'. reconcile h account r w = (Inr (), w'))) \<and>
   (\<exists>w'. syncAccountEvents h deps account w = (Inr (), w'))"
proof (intro conjI impI)
  assume wd: "\<forall>i \<in> set items. well_dated h i"
  from google_items_run[OF wd, of accId calId evs del w]
  show "\<exists>more w'. google_items h accId calId items (evs, del) w
                    = (Inr (evs @ more, del @ tombstones items), w') \<and>
                  map uid more = live_uids items"
    by blast
next
  show "\<forall>i \<in> set items. item_cancelled i \<and> truthy (item_key i) \<longrightarrow>
                          the (item_key i) \<in> set (tombstones items)"
    by (auto simp: tombstones_def)
next
  assume "googleEventsAt h (tick w) = Ok d \<and> (\<forall>i \<in> set (g_items d). well_dated h i) \<and>
    google_calendars h accId lo hi tok (cal # cals) (evs, del, t) w
      = (Inr (evs', del', t'), w1)"
  then show "\<exists>more laterE laterD. evs' = evs @ more @ laterE \<and>
         map uid more = live_uids (g_items d) \<and>
         del' = del @ tombstones (g_items d) @ laterD"
    using google_calendars_step by blast
next
  assume "google_syncEvents h account creds lo hi tok w = (Inr r, w2)"
  from google_syncEvents_Inr[OF this]
  show "\<exists>cs w0 es ds tk.
         google_calendars h (acc_id account) lo hi tok cs ([], [], None) w0
           = (Inr (es, ds, tk), w2) \<and>
         events r = es \<and> deletedUids r = (if ds \<noteq> [] then Some ds else None)"
    by blast
next
  assume "wf_events (coll_events w) \<and> reconcile h account r w = (Inr (), w3) \<and>
    deletedUids r = Some uids \<and> X \<in> set uids"
  then show "rows_for (acc_id account) X (coll_events w3) = []"
    using reconcile_deletes by blast
next
  assume "no_faults h"
  from succeeds_reconcile[OF this, of account r]
  show "\<exists>w'. reconcile h account r w = (Inr (), w')"
    by (auto simp: succeeds_def)
next
  show "\<exists>w'. syncAccountEvents h deps account w = (Inr (), w')"
    by (rule syncAccountEvents_total)
qed

section \<open>Worked examples\<close>

theorem upsert_twice_converges_witness:
  "wf_events (coll_events empty_world) \<and>
   first_upsert = (Inr (projr (fst first_upsert)), snd first_upsert) \<and>
   second_upsert = (Inr (projr (fst second_upsert)), snd second_upsert) \<and>
   rows_for ''acc1'' ''u1'' (coll_events (snd second_upsert)) = [projr (fst second_upsert)] \<and>
   id' (projr (fst second_upsert)) = ''evt_m7x2k9qp'' \<and>
   id' (projr (fst first_upsert)) = ''evt_m7x2k9qp'' \<and>
   createdAt (projr (fst second_upsert)) = ''2026-03-01T08:43:00.000Z'' \<and>
   updatedAt (projr (fst second_upsert)) = ''2026-03-01T08:43:04.000Z'' \<and>
   title (projr (fst second_upsert)) = ''Standup (moved)''"
proof -
  have h1: "wf_events (coll_events empty_world)" by code_simp
  have h2: "upsertByUid (march_host 1772354580000 1000) ''acc1''
              (sample_input ''u1'' ''Standup'') empty_world
            = (Inr (projr (fst first_upsert)), snd first_upsert)" by code_simp
  have h3: "upsertByUid (march_host 1772354580000 1000) ''acc1''
              (sample_input ''u1'' ''Standup (moved)'') (snd first_upsert)
            = (Inr (projr (fst second_upsert)), snd second_upsert)" by code_simp
  have h4: "uid (sample_input ''u1'' ''Standup (moved)'') = uid (sample_input ''u1'' ''Standup'')"
    by code_simp
  have e: "id' (projr (fst first_upsert)) = ''evt_m7x2k9qp'' \<and>
           createdAt (projr (fst first_upsert)) = ''2026-03-01T08:43:00.000Z'' \<and>
           uid (sample_input ''u1'' ''Standup'') = ''u1'' \<and>
           tick (snd first_upsert) = 4 \<and>
           title (sample_input ''u1'' ''Standup (moved)'') = ''Standup (moved)'' \<and>
           toISOString (march_host 1772354580000 1000)
             (clockAt (march_host 1772354580000 1000) 4) = ''2026-03-01T08:43:04.000Z''"
    by code_simp
  from upsert_twice_converges[OF h1 h2 h3 h4] e
  have c: "rows_for ''acc1'' ''u1'' (coll_events (snd second_upsert)) = [projr (fst second_upsert)] \<and>
   id' (projr (fst second_upsert)) = ''evt_m7x2k9qp'' \<and>
   createdAt (projr (fst second_upsert)) = ''2026-03-01T08:43:00.000Z'' \<and>
   updatedAt (projr (fst second_upsert)) = ''2026-03-01T08:43:04.000Z''"
    by simp
  from upsert_twice_converges[OF h1 h2 h3 h4]
  have "EventInput.truncate (projr (fst second_upsert))
          = (sample_input ''u1'' ''Standup (moved)'')\<lparr>accountId := ''acc1''\<rparr>" by simp
  then have "title (EventInput.truncate (projr (fst second_upsert))) = ''Standup (moved)''"
    using e by simp
  then have t: "title (projr (fst second_upsert)) = ''Standup (moved)''"
    by (simp add: EventInput.truncate_def)
  from h1 h2 h3 c e t show ?thesis
    by (simp add: first_upsert_def[symmetric] second_upsert_def[symmetric])
qed

theorem recurrence_expansion_capped_and_keyed_witness:
  "v_isRecurring weekly_standup \<and> length standup_events \<le> 365 \<and>
   map uid standup_events = [''standup@example.com_2026-03-01T09:00:00.000Z'',
                             ''standup@example.com_2026-03-08T09:00:00.000Z''] \<and>
   (\<forall>e \<in> set standup_events. uid e = v_uid weekly_standup @ ''_'' @ startAt e)"
proof -
  have h1: "v_isRecurring weekly_standup" by code_simp
  note t = recurrence_expansion_capped_and_keyed[OF h1, of "march_host 1772354580000 0"
      "''acc1''" "''default''" 1772323200000 1773100800000 None,
      folded standup_events_def]
  from t have a: "length standup_events \<le> 365" by blast
  from t have b: "\<forall>e \<in> set standup_events. uid e = v_uid weekly_standup @ ''_'' @ startAt e"
    by fastforce
  have c: "map uid standup_events = [''standup@example.com_2026-03-01T09:00:00.000Z'',
                             ''standup@example.com_2026-03-08T09:00:00.000Z'']"
    by code_simp
  from h1 a b c show ?thesis by blast
qed

theorem google_needs_config_outlook_defaults_witness:
  "credentials (sample_account ''acc1'' google None expiring_soon)
     = OAuth2Credentials ''access-1'' ''refresh-1'' ''2026-03-01T08:45:00.000Z'' \<and>
   dateParse token_host ''2026-03-01T08:45:00.000Z'' = Some 1772354700000 \<and>
   1772354700000 - 5 * 60 * 1000 \<le> clockAt token_host (tick empty_world) \<and>
   ensureFreshCredentials token_host (sample_account ''acc1'' google None expiring_soon)
       no_config empty_world
     = (Inl ''Google OAuth configuration missing for token refresh'', empty_world\<lparr>tick := 1\<rparr>) \<and>
   effects (snd (ensureFreshCredentials token_host
                   (sample_account ''acc2'' outlook None expiring_soon) no_config empty_world))
     = [TokenRequest (createOutlookConfig DEFAULT_OUTLOOK_CALENDAR_CLIENT_ID None) ''refresh-1''] \<and>
   fst (ensureFreshCredentials token_host
          (sample_account ''acc2'' outlook None expiring_soon) no_config empty_world)
     = Inr (OAuth2Credentials ''access-2'' ''refresh-1'' ''2026-03-01T09:43:00.000Z'')"
proof -
  have h1: "credentials (sample_account ''acc1'' google None expiring_soon)
     = OAuth2Credentials ''access-1'' ''refresh-1'' ''2026-03-01T08:45:00.000Z''" by code_simp
  have h1': "credentials (sample_account ''acc2'' outlook None expiring_soon)
     = OAuth2Credentials ''access-1'' ''refresh-1'' ''2026-03-01T08:45:00.000Z''" by code_simp
  have h2: "dateParse token_host ''2026-03-01T08:45:00.000Z'' = Some 1772354700000" by code_simp
  have h3: "1772354700000 - 5 * 60 * 1000 \<le> clockAt token_host (tick empty_world)" by code_simp
  have g: "provider (sample_account ''acc1'' google None expiring_soon) = google \<and>
           (\<not> truthy (googleClientId no_config) \<or> \<not> truthy (googleClientSecret no_config))"
    by code_simp
  have o: "provider (sample_account ''acc2'' outlook None expiring_soon) = outlook \<and>
           \<not> truthy (outlookClientId no_config)" by code_simp
  have e: "effects empty_world = [] \<and> outlookTenantId no_config = None \<and> tick empty_world = 0"
    by code_simp
  from google_needs_config_outlook_defaults[OF h1 h2 h3, of no_config] g e
  have a: "ensureFreshCredentials token_host (sample_account ''acc1'' google None expiring_soon)
       no_config empty_world
     = (Inl ''Google OAuth configuration missing for token refresh'', empty_world\<lparr>tick := 1\<rparr>)"
    by simp
  from google_needs_config_outlook_defaults[OF h1' h2 h3, of no_config] o e
  have b: "effects (snd (ensureFreshCredentials token_host
                   (sample_account ''acc2'' outlook None expiring_soon) no_config empty_world))
     = [TokenRequest (createOutlookConfig DEFAULT_OUTLOOK_CALENDAR_CLIENT_ID None) ''refresh-1'']"
    by simp
  have c: "fst (ensureFreshCredentials token_host
          (sample_account ''acc2'' outlook None expiring_soon) no_config empty_world)
     = Inr (OAuth2Credentials ''access-2'' ''refresh-1'' ''2026-03-01T09:43:00.000Z'')"
    by code_simp
  from h1 h2 h3 a b c show ?thesis by blast
qed

theorem refresh_iff_within_buffer_witness:
  "credentials (stored_google expiring_soon)
     = OAuth2Credentials ''access-1'' ''refresh-1'' ''2026-03-01T08:45:00.000Z'' \<and>
   dateParse token_host ''2026-03-01T08:45:00.000Z'' = Some 1772354700000 \<and>
   dateParse token_host ''2026-03-01T08:53:00.000Z'' = Some 1772355180000 \<and>
   clockAt token_host 0 = 1772354700000 - 2 * 60 * 1000 \<and>
   clockAt token_host 0 = 1772355180000 - 10 * 60 * 1000 \<and>
   effects (snd refresh_soon)
     = [TokenRequest (createGoogleConfig ''client-1'' ''secret-1'') ''refresh-1''] \<and>
   fst refresh_soon = Inr (OAuth2Credentials ''access-2'' ''refresh-1'' ''2026-03-01T09:43:00.000Z'') \<and>
   storage_get (getCredentialsKey ''acc1'') (secrets (snd refresh_soon))
     = Some (OAuth2Credentials ''access-2'' ''refresh-1'' ''2026-03-01T09:43:00.000Z'') \<and>
   refresh_later = (Inr expiring_later, (account_world [stored_google expiring_later])\<lparr>tick := 1\<rparr>) \<and>
   effects (snd refresh_later) = []"
proof -
  let ?w = "account_world [stored_google expiring_soon]"
  let ?w' = "account_world [stored_google expiring_later]"
  have c1: "credentials (stored_google expiring_soon)
     = OAuth2Credentials ''access-1'' ''refresh-1'' ''2026-03-01T08:45:00.000Z''" by code_simp
  have c2: "credentials (stored_google expiring_later)
     = OAuth2Credentials ''access-1'' ''refresh-1'' ''2026-03-01T08:53:00.000Z''" by code_simp
  have d1: "dateParse token_host ''2026-03-01T08:45:00.000Z'' = Some 1772354700000" by code_simp
  have d2: "dateParse token_host ''2026-03-01T08:53:00.000Z'' = Some 1772355180000" by code_simp
  have p: "provider (stored_google expiring_soon) = google \<and>
           provider (stored_google expiring_later) = google \<and>
           truthy (googleClientId google_config) \<and> truthy (googleClientSecret google_config)"
    by code_simp
  have k: "clockAt token_host 0 = 1772354700000 - 2 * 60 * 1000 \<and>
           clockAt token_host 0 = 1772355180000 - 10 * 60 * 1000 \<and>
           tick ?w = 0 \<and> tick ?w' = 0 \<and> effects ?w = [] \<and> effects ?w' = [] \<and>
           acc_id (stored_google expiring_soon) = ''acc1'' \<and>
           storage_get ''acc1'' (coll_accounts ?w) \<noteq> None"
    by code_simp
  have r: "fst refresh_soon
             = Inr (OAuth2Credentials ''access-2'' ''refresh-1'' ''2026-03-01T09:43:00.000Z'')"
    by code_simp
  have e: "effects (snd refresh_soon)
     = [TokenRequest (createGoogleConfig ''client-1'' ''secret-1'') ''refresh-1'']" by code_simp
  note t1 = refresh_iff_within_buffer[where account = "stored_google expiring_soon"
      and h = token_host and config = google_config and w = ?w and a = "''access-1''"
      and r = "''refresh-1''" and e = "''2026-03-01T08:45:00.000Z''" and E = 1772354700000,
      folded refresh_soon_def]
  note t2 = refresh_iff_within_buffer[where account = "stored_google expiring_later"
      and h = token_host and config = google_config and w = ?w' and a = "''access-1''"
      and r = "''refresh-1''" and e = "''2026-03-01T08:53:00.000Z''" and E = 1772355180000,
      folded refresh_later_def]
  have aid: "acc_id (stored_google expiring_soon) = ''acc1''" using k by blast
  from k obtain d where d: "storage_get (acc_id (stored_google expiring_soon)) (coll_accounts ?w) = Some d"
    unfolding aid by blast
  have prem1: "credentials (stored_google expiring_soon)
        = OAuth2Credentials ''access-1'' ''refresh-1'' ''2026-03-01T08:45:00.000Z'' \<and>
      dateParse token_host ''2026-03-01T08:45:00.000Z'' = Some 1772354700000 \<and>
      (provider (stored_google expiring_soon) = google \<and> truthy (googleClientId google_config) \<and>
       truthy (googleClientSecret google_config) \<or> provider (stored_google expiring_soon) = outlook)"
    using c1 d1 p by blast
  have ex1: "1772354700000 - 5 * 60 * 1000 \<le> clockAt token_host (tick ?w)"
    by code_simp
  note u1 = t1[THEN conjunct2, THEN mp, OF prem1, THEN conjunct2, THEN mp, OF ex1, THEN conjunct2]
  have run: "refresh_soon = (Inr (OAuth2Credentials ''access-2'' ''refresh-1''
                 ''2026-03-01T09:43:00.000Z''), snd refresh_soon)"
    using r by (simp add: prod_eq_iff)
  from u1[rule_format, OF conjI[OF run d]]
  have s: "storage_get (getCredentialsKey ''acc1'') (secrets (snd refresh_soon))
     = Some (OAuth2Credentials ''access-2'' ''refresh-1'' ''2026-03-01T09:43:00.000Z'')"
    unfolding aid by blast
  have prem2: "credentials (stored_google expiring_later)
        = OAuth2Credentials ''access-1'' ''refresh-1'' ''2026-03-01T08:53:00.000Z'' \<and>
      dateParse token_host ''2026-03-01T08:53:00.000Z'' = Some 1772355180000 \<and>
      (provider (stored_google expiring_later) = google \<and> truthy (googleClientId google_config) \<and>
       truthy (googleClientSecret google_config) \<or> provider (stored_google expiring_later) = outlook)"
    using c2 d2 p by blast
  have fr: "clockAt token_host (tick ?w') < 1772355180000 - 5 * 60 * 1000"
    by code_simp
  note u2 = t2[THEN conjunct2, THEN mp, OF prem2, THEN conjunct1, THEN mp, OF fr]
  have tk: "tick ?w' + 1 = 1" by code_simp
  have cr: "credentials (stored_google expiring_later) = expiring_later" by code_simp
  have l1: "refresh_later = (Inr expiring_later, ?w'\<lparr>tick := 1\<rparr>)"
    using u2 unfolding tk cr .
  have l2: "effects (snd refresh_later) = []" by code_simp
  from c1 d1 d2 k e r s l1 l2 show ?thesis by blast
qed

theorem refresh_skipped_without_google_config:
  "credentials (stored_google expiring_soon)
     = OAuth2Credentials ''access-1'' ''refresh-1'' ''2026-03-01T08:45:00.000Z'' \<and>
   provider (stored_google expiring_soon) = google \<and>
   dateParse token_host ''2026-03-01T08:45:00.000Z'' = Some 1772354700000 \<and>
   1772354700000 - 5 * 60 * 1000 \<le> clockAt token_host 0 \<and>
   fst refresh_unconfigured = Inl ''Google OAuth configuration missing for token refresh'' \<and>
   effects (snd refresh_unconfigured) = []"
  by code_simp

text \<open>
  C6 fails on the code. With a limit of 1, the storage query keeps only the earliest
  document of the collection, an event of January; the range filter drops it, and \<open>list\<close>
  returns nothing, although the event of 1 March is in the cache, is not declined and
  overlaps the range.
\<close>

theorem list_truncates_before_filtering:
  "list_events (march_host 1772354580000 0) first_page_from_march two_event_world
     = (Inr [], two_event_world\<lparr>tick := 1\<rparr>) \<and>
   (''evt_u2'', nine_oclock) \<in> set (coll_events two_event_world) \<and>
   listQuery first_page_from_march nine_oclock \<and> listFilter first_page_from_march nine_oclock \<and>
   take (listLimit first_page_from_march) (drop (listOffset first_page_from_march)
     (filter (listFilter first_page_from_march)
        (sort_key startAt (filter (listQuery first_page_from_march)
            (map snd (coll_events two_event_world)))))) = [nine_oclock]"
  by code_simp

theorem upcoming_capped_at_200_witness:
  "getUpcoming (march_host 1772354580000 0) ''2026-03-01T08:43:00.000Z''
       ''2026-03-02T08:43:00.000Z'' nine_world
     = (Inr [nine_oclock], nine_world\<lparr>tick := 1\<rparr>) \<and>
   length [nine_oclock] \<le> 200 \<and>
   (\<exists>zs. take 200 (window_events ''2026-03-01T08:43:00.000Z'' ''2026-03-02T08:43:00.000Z''
                     (coll_events nine_world)) = [nine_oclock] @ zs)"
proof -
  have h: "getUpcoming (march_host 1772354580000 0) ''2026-03-01T08:43:00.000Z''
       ''2026-03-02T08:43:00.000Z'' nine_world
     = (Inr [nine_oclock], nine_world\<lparr>tick := 1\<rparr>)" by code_simp
  from upcoming_capped_at_200[THEN conjunct1, THEN mp, OF h] h show ?thesis by blast
qed

theorem reminder_fires_within_grace_witness:
  "reminderMinutes default_settings = 15 \<and>
   dateParse (march_host 1772354820000 0) (startAt nine_oclock) = Some 1772355600000 \<and>
   has_chat chat_deps \<and>
   1772355600000 - 15 * 60 * 1000 \<le> (1772354820000::int) \<and>
   (1772354820000::int) < 1772355600000 - 15 * 60 * 1000 + 5 * 60 * 1000 \<and>
   reminder_key nine_oclock \<notin> {} \<and>
   (\<exists>fired' ef' w' eff.
      reminder_step (march_host 1772354820000 0) chat_deps ''user1'' default_settings
        1772354820000 nine_oclock ({}, None) nine_world = (Inr (fired', ef'), w') \<and>
      effects w' = effects nine_world @ [eff] \<and>
      is_reminder_for default_settings ''user1'' nine_oclock eff \<and>
      reminder_key nine_oclock \<in> fired') \<and>
   effects (snd (reminder_step (march_host 1772354820000 0) chat_deps ''user1'' default_settings
        1772354820000 nine_oclock ({}, None) nine_world))
     = [AppendInstruction (buildReminderInstruction nine_oclock default_settings None None)
          ''user1'']"
proof -
  have h1: "reminderMinutes default_settings = 15" by code_simp
  have h2: "dateParse (march_host 1772354820000 0) (startAt nine_oclock) = Some 1772355600000"
    by code_simp
  have h3: "has_chat chat_deps" by code_simp
  have k: "reminder_key nine_oclock \<notin> {}" by simp
  have a: "1772355600000 - 15 * 60 * 1000 \<le> (1772354820000::int) \<and>
      (1772354820000::int) < 1772355600000 - 15 * 60 * 1000 + 5 * 60 * 1000" by simp
  have f: "faultAt (march_host 1772354820000 0) (delivery_tick chat_deps nine_world) = None"
    by code_simp
  from reminder_fires_within_grace[OF h1 h2 h3, THEN conjunct1, of "''user1''" 1772354820000
      "{}" None nine_world] a k f
  have c: "\<exists>fired' ef' w' eff.
      reminder_step (march_host 1772354820000 0) chat_deps ''user1'' default_settings
        1772354820000 nine_oclock ({}, None) nine_world = (Inr (fired', ef'), w') \<and>
      effects w' = effects nine_world @ [eff] \<and>
      is_reminder_for default_settings ''user1'' nine_oclock eff \<and>
      reminder_key nine_oclock \<in> fired'"
    by auto
  have e: "effects (snd (reminder_step (march_host 1772354820000 0) chat_deps ''user1''
        default_settings 1772354820000 nine_oclock ({}, None) nine_world))
     = [AppendInstruction (buildReminderInstruction nine_oclock default_settings None None)
          ''user1'']"
    by code_simp
  from h1 h2 h3 a k c e show ?thesis by blast
qed

text \<open>
  C5 fails as stated. With the start at 09:00 and a lead time of 15 minutes, a pass at 08:43
  is inside the claimed interval \<open>(T - 20min, T - 15min]\<close> and sends nothing; a pass at 08:47
  is outside it and sends the reminder. A declined event that is due gets no reminder.
\<close>

theorem reminder_not_fired_before_its_instant:
  "dateParse (march_host 1772354580000 0) (startAt nine_oclock) = Some 1772355600000 \<and>
   1772355600000 - 15 * 60 * 1000 - 5 * 60 * 1000 < (1772354580000::int) \<and>
   (1772354580000::int) \<le> 1772355600000 - 15 * 60 * 1000 \<and>
   reminder_key nine_oclock \<notin> {} \<and>
   reminders_phase (march_host 1772354580000 0) chat_deps ''user1'' {} nine_world
     = (Inr ({}, 120000),
        nine_world\<lparr>tick := 5, coll_settings := coll_settings (snd
           (reminders_phase (march_host 1772354580000 0) chat_deps ''user1'' {} nine_world))\<rparr>) \<and>
   effects (snd (reminders_phase (march_host 1772354580000 0) chat_deps ''user1'' {} nine_world))
     = [] \<and>
   \<not> (1772355600000 - 15 * 60 * 1000 - 5 * 60 * 1000 < (1772354820000::int) \<and>
      (1772354820000::int) \<le> 1772355600000 - 15 * 60 * 1000) \<and>
   effects (snd (reminders_phase (march_host 1772354820000 0) chat_deps ''user1'' {} nine_world))
     = [AppendInstruction (buildReminderInstruction nine_oclock default_settings None None)
          ''user1''] \<and>
   effects (snd (reminders_phase (march_host 1772354820000 0) chat_deps ''user1'' {}
       (nine_world\<lparr>coll_events := [(''evt_u2'', nine_oclock\<lparr>responseStatus := Some ''declined''\<rparr>)]\<rparr>)))
     = []"
  by code_simp

end
